theory Spec2Isabelle
  imports Main
begin

section \<open>The environment of luaiconv.c\<close>

text \<open>
  luaiconv.c is a Lua binding of the iconv library. The file calls three kinds of code
  that are not part of it: the C library (\<open>errno.h\<close>, \<open>strerror\<close>), the Lua C API and
  the iconv library. The constants of the C library and the iconv library are parameters
  of the model; the functions of the Lua C API are defined as far as the file uses them.
\<close>

subsection \<open>Platform constants\<close>

text \<open>
  The values of \<open>E2BIG\<close>, \<open>EILSEQ\<close> and \<open>EINVAL\<close> come from \<open>errno.h\<close>, the text of
  \<open>strerror\<close> from the C library, \<open>LUAL_BUFFERSIZE\<close> and the number format from
  \<open>luaconf.h\<close>. The model takes them as a record.
\<close>

record platform =
  E2BIG :: int
  EILSEQ :: int
  EINVAL :: int
  strerror :: "int \<Rightarrow> string"
  LUAL_BUFFERSIZE :: nat
  lua_number2str :: "int \<Rightarrow> string"

subsection \<open>The iconv library\<close>

text \<open>
  One call \<open>iconv(cd, &inbuf, &ibleft, &outbuf, &obleft)\<close> reads the state of the
  descriptor, the remaining input and the room left in the output buffer. It returns
  \<open>(size_t)(-1)\<close> with \<open>errno\<close> set (\<open>Inl errno\<close>) or the number of irreversible
  conversions (\<open>Inr n\<close>); it leaves \<open>inbuf\<close> at the unconsumed input, has written some
  bytes at \<open>outbuf\<close> and has updated the descriptor.
\<close>

record 'd iconv_result =
  outcome :: "int + nat"
  inrest :: string
  written :: string
  newcd :: 'd

text \<open>
  The library itself: \<open>iconv_open\<close> returns \<open>(iconv_t)(-1)\<close> with \<open>errno\<close> set
  (\<open>Inl errno\<close>) or a new descriptor in its initial state; \<open>iconv_reset\<close> is the call
  \<open>iconv(cd, NULL, NULL, NULL, NULL)\<close>; \<open>iconv_close\<close> gives the value returned by
  \<open>iconv_close(cd)\<close>, 0 when the descriptor was released.
\<close>

record 'd iconv_lib =
  iconv_open :: "string \<Rightarrow> string \<Rightarrow> int + 'd"
  iconv :: "'d \<Rightarrow> string \<Rightarrow> nat \<Rightarrow> 'd iconv_result"
  iconv_reset :: "'d \<Rightarrow> 'd"
  iconv_close :: "'d \<Rightarrow> int"

subsection \<open>Lua values and the state of the process\<close>

datatype cfunction =
  Liconv_new_fn | Liconv_fn | Liconv_close_fn | Liconv_open_fn | Liconv_closure_fn

datatype lua_value =
  LNil
  | LBoolean bool
  | LNumber int
  | LString string
  | LTable nat
  | LUserdata nat
  | LCClosure cfunction "lua_value list"

text \<open>
  An \<open>iconv_t\<close> is a pointer: \<open>NULL\<close> or the address of a descriptor owned by the
  library.
\<close>

datatype iconv_t = NULL | Ptr nat

text \<open>
  The state holds the Lua stack of the running C function (index 1 first, the top
  last), the userdata blocks whose metatable is \<open>iconv_t\<close> (each stores one
  \<open>iconv_t\<close>), and the descriptors the library has open, each with its state.
\<close>

record 'd lua_State =
  stack :: "lua_value list"
  udata :: "nat \<rightharpoonup> iconv_t"
  next_udata :: nat
  descs :: "nat \<rightharpoonup> 'd"
  next_desc :: nat

text \<open>
  A C function either raises a Lua error (\<open>luaL_argerror\<close>), reads through an invalid
  pointer, or returns the number of its results, which are the topmost values of the
  stack.
\<close>

datatype lua_error = BadArgument nat string | InvalidPointer

type_synonym 'd creturn = "lua_error + (nat \<times> 'd lua_State)"

definition results :: "nat \<Rightarrow> 'd lua_State \<Rightarrow> lua_value list" where
  "results n L = drop (length (stack L) - n) (stack L)"

text \<open>What the caller of a C function sees: the error raised or the values returned.\<close>

definition returned :: "'d creturn \<Rightarrow> lua_error + lua_value list" where
  "returned r = (case r of Inl e \<Rightarrow> Inl e | Inr (n, L) \<Rightarrow> Inr (results n L))"

text \<open>
  The states the module produces: every block was allocated, every descriptor stored in
  a block is one the library holds, and no two blocks store the same descriptor.
\<close>

definition consistent :: "'d lua_State \<Rightarrow> bool" where
  "consistent L =
     ((\<forall>a cd. udata L a = Some cd \<longrightarrow> a < next_udata L) \<and>
      (\<forall>a k. udata L a = Some (Ptr k) \<longrightarrow> descs L k \<noteq> None \<and> k < next_desc L) \<and>
      (\<forall>a b k. udata L a = Some (Ptr k) \<and> udata L b = Some (Ptr k) \<longrightarrow> a = b))"

subsection \<open>The Lua C API\<close>

text \<open>
  The functions of the Lua C API that luaiconv.c calls, as the Lua reference manual
  describes them.
\<close>

definition index2value :: "'d lua_State \<Rightarrow> int \<Rightarrow> lua_value option" where
  "index2value L i =
     (let n = int (length (stack L)); j = (if i < 0 then n + i else i - 1)
      in if 0 \<le> j \<and> j < n then Some (stack L ! nat j) else None)"

definition lua_push :: "lua_value \<Rightarrow> 'd lua_State \<Rightarrow> 'd lua_State" where
  "lua_push v L = L\<lparr>stack := stack L @ [v]\<rparr>"

definition lua_pushnil :: "'d lua_State \<Rightarrow> 'd lua_State" where
  "lua_pushnil L = lua_push LNil L"

definition lua_pushstring :: "string \<Rightarrow> 'd lua_State \<Rightarrow> 'd lua_State" where
  "lua_pushstring s L = lua_push (LString s) L"

definition lua_pushinteger :: "int \<Rightarrow> 'd lua_State \<Rightarrow> 'd lua_State" where
  "lua_pushinteger n L = lua_push (LNumber n) L"

definition lua_pushvalue :: "int \<Rightarrow> 'd lua_State \<Rightarrow> 'd lua_State" where
  "lua_pushvalue i L =
     lua_push (case index2value L i of None \<Rightarrow> LNil | Some v \<Rightarrow> v) L"

text \<open>\<open>luaL_pushresult\<close> leaves the content of the buffer on the top of the stack.\<close>

definition luaL_pushresult :: "string \<Rightarrow> 'd lua_State \<Rightarrow> 'd lua_State" where
  "luaL_pushresult B L = lua_push (LString B) L"

definition lua_remove :: "nat \<Rightarrow> 'd lua_State \<Rightarrow> 'd lua_State" where
  "lua_remove i L = L\<lparr>stack := take (i - 1) (stack L) @ drop i (stack L)\<rparr>"

definition is_table :: "'d lua_State \<Rightarrow> int \<Rightarrow> bool" where
  "is_table L i = (case index2value L i of Some (LTable t) \<Rightarrow> True | _ \<Rightarrow> False)"

text \<open>\<open>lua_isstring\<close>: the value is a string or a number.\<close>

definition lua_isstring :: "'d lua_State \<Rightarrow> int \<Rightarrow> bool" where
  "lua_isstring L i =
     (case index2value L i of
        Some (LString s) \<Rightarrow> True
      | Some (LNumber n) \<Rightarrow> True
      | _ \<Rightarrow> False)"

text \<open>
  \<open>luaL_checklstring\<close> accepts a string or a number, which it converts in place, and
  raises an argument error on anything else.
\<close>

definition luaL_checklstring ::
  "platform \<Rightarrow> 'd lua_State \<Rightarrow> nat \<Rightarrow> lua_error + (string \<times> 'd lua_State)" where
  "luaL_checklstring p L i =
     (case index2value L (int i) of
        Some (LString s) \<Rightarrow> Inr (s, L)
      | Some (LNumber n) \<Rightarrow>
          Inr (lua_number2str p n,
               L\<lparr>stack := (stack L)[i - 1 := LString (lua_number2str p n)]\<rparr>)
      | _ \<Rightarrow> Inl (BadArgument i ''string''))"

text \<open>
  The string \<open>luaL_checklstring\<close> gives for a value it accepts: a string is taken as it
  is, a number in the format of \<open>luaconf.h\<close>.
\<close>

definition name_of :: "platform \<Rightarrow> lua_value \<Rightarrow> string" where
  "name_of p v =
     (case v of LString s \<Rightarrow> s | LNumber n \<Rightarrow> lua_number2str p n | _ \<Rightarrow> [])"

text \<open>
  \<open>luaL_checkudata(L, i, tname)\<close> accepts a userdata whose metatable is the one
  registered as \<open>tname\<close> and gives its block. The only name luaiconv.c registers and
  asks for is \<open>iconv_t\<close>, and \<open>udata\<close> holds the blocks with this metatable.
\<close>

definition luaL_checkudata ::
  "'d lua_State \<Rightarrow> nat \<Rightarrow> string \<Rightarrow> lua_error + (nat \<times> iconv_t)" where
  "luaL_checkudata L i tname =
     (case index2value L (int i) of
        Some (LUserdata a) \<Rightarrow>
          (case udata L a of
             Some cd \<Rightarrow> Inr (a, cd)
           | None \<Rightarrow> Inl (BadArgument i tname))
      | _ \<Rightarrow> Inl (BadArgument i tname))"

text \<open>
  \<open>lua_newuserdata\<close> followed by the store of \<open>cd\<close> and \<open>lua_setmetatable\<close>: a new
  \<open>iconv_t\<close> block on the top of the stack.
\<close>

definition lua_newuserdata :: "iconv_t \<Rightarrow> 'd lua_State \<Rightarrow> 'd lua_State" where
  "lua_newuserdata cd L =
     L\<lparr>stack := stack L @ [LUserdata (next_udata L)],
       udata := (udata L)(next_udata L \<mapsto> cd),
       next_udata := Suc (next_udata L)\<rparr>"

text \<open>\<open>lua_pushcclosure(L, f, 1)\<close> pops one value, the upvalue of the new closure.\<close>

definition lua_pushcclosure1 :: "cfunction \<Rightarrow> 'd lua_State \<Rightarrow> 'd lua_State" where
  "lua_pushcclosure1 f L =
     (case rev (stack L) of
        [] \<Rightarrow> L
      | v # below \<Rightarrow> L\<lparr>stack := rev below @ [LCClosure f [v]]\<rparr>)"

text \<open>A C string ends at its first NUL byte.\<close>

definition c_str :: "string \<Rightarrow> string" where
  "c_str s = takeWhile (\<lambda>c. c \<noteq> CHR 0x00) s"

section \<open>luaiconv.c\<close>

definition ICONV_TYPENAME :: string where
  "ICONV_TYPENAME = ''iconv_t''"

definition LIB_VERSION :: string where
  "LIB_VERSION = ''iconv 7''"

subsection \<open>Liconv_new\<close>

definition Liconv_new :: "'d iconv_lib \<Rightarrow> platform \<Rightarrow> 'd lua_State \<Rightarrow> 'd creturn" where
  "Liconv_new lib p L =
     (case luaL_checklstring p L 1 of
        Inl e \<Rightarrow> Inl e
      | Inr (tocode, L1) \<Rightarrow>
     (case luaL_checklstring p L1 2 of
        Inl e \<Rightarrow> Inl e
      | Inr (fromcode, L2) \<Rightarrow>
     (case iconv_open lib (c_str tocode) (c_str fromcode) of
        Inr d \<Rightarrow>
          Inr (1, lua_newuserdata (Ptr (next_desc L2))
                    (L2\<lparr>descs := (descs L2)(next_desc L2 \<mapsto> d),
                        next_desc := Suc (next_desc L2)\<rparr>))
      | Inl errno \<Rightarrow>
          Inr (2, lua_pushstring (strerror p errno) (lua_pushnil L2)))))"

subsection \<open>Liconv_close\<close>

definition Liconv_close :: "'d iconv_lib \<Rightarrow> 'd lua_State \<Rightarrow> 'd creturn" where
  "Liconv_close lib L =
     (case luaL_checkudata L 1 ICONV_TYPENAME of
        Inl e \<Rightarrow> Inl e
      | Inr (a, cd) \<Rightarrow>
          (case cd of
             NULL \<Rightarrow> Inr (0, L)
           | Ptr k \<Rightarrow>
               (case descs L k of
                  None \<Rightarrow> Inl InvalidPointer
                | Some d \<Rightarrow>
                    if iconv_close lib d = 0
                    then Inr (0, L\<lparr>udata := (udata L)(a \<mapsto> NULL),
                                   descs := (descs L)(k := None)\<rparr>)
                    else Inr (0, L))))"

subsection \<open>Liconv_convert\<close>

text \<open>
  The \<open>do ... while (ret != 0)\<close> loop. \<open>B\<close> is the content of the \<open>luaL_Buffer\<close>,
  \<open>obleft\<close> the room left in the chunk \<open>luaL_prepbuffer\<close> gave. The loop leaves with the
  buffer and the descriptor (\<open>Done\<close>), or with them and \<open>errno\<close> (\<open>Failed\<close>). The library
  decides whether it ends, so a run that never leaves the loop is \<open>None\<close>.
\<close>

datatype 'd loop_exit = Done string 'd | Failed string int 'd

fun exit_cd :: "'d loop_exit \<Rightarrow> 'd" where
  "exit_cd (Done B d) = d"
| "exit_cd (Failed B e d) = d"

partial_function (option) Liconv_loop ::
  "'d iconv_lib \<Rightarrow> platform \<Rightarrow> 'd \<Rightarrow> string \<Rightarrow> string \<Rightarrow> nat \<Rightarrow> 'd loop_exit option" where
  "Liconv_loop lib p d inbuf B obleft =
     (let r = iconv lib d inbuf obleft;
          B' = B @ written r
      in case outcome r of
           Inl errno \<Rightarrow>
             if errno = E2BIG p
             then Liconv_loop lib p (newcd r) (inrest r) B' (LUAL_BUFFERSIZE p)
             else Some (Failed B' errno (newcd r))
         | Inr ret \<Rightarrow>
             if ret \<noteq> 0
             then Liconv_loop lib p (newcd r) (inrest r) B' (obleft - length (written r))
             else Some (Done B' (newcd r)))"

declare Liconv_loop.simps [code]

definition Liconv_convert ::
  "'d iconv_lib \<Rightarrow> platform \<Rightarrow> 'd lua_State \<Rightarrow> iconv_t \<Rightarrow> string \<Rightarrow> 'd creturn option" where
  "Liconv_convert lib p L cd inbuf =
     (case cd of
        NULL \<Rightarrow> Some (Inr (2, lua_pushstring ''invalid iconv handle'' (lua_pushnil L)))
      | Ptr k \<Rightarrow>
          (case descs L k of
             None \<Rightarrow> Some (Inl InvalidPointer)
           | Some d \<Rightarrow>
               (case Liconv_loop lib p d inbuf [] (LUAL_BUFFERSIZE p) of
                  None \<Rightarrow> None
                | Some (Failed B errno d') \<Rightarrow>
                    Some (Inr (4,
                      lua_pushinteger errno
                        (lua_pushvalue (- 3)
                          (lua_pushstring (strerror p errno)
                            (lua_pushnil
                              (luaL_pushresult B (L\<lparr>descs := (descs L)(k \<mapsto> d')\<rparr>)))))))
                | Some (Done B d') \<Rightarrow>
                    Some (Inr (1,
                      luaL_pushresult B
                        (L\<lparr>descs := (descs L)(k \<mapsto> iconv_reset lib d')\<rparr>))))))"

subsection \<open>Liconv, Liconv_closure, Liconv_open\<close>

definition Liconv :: "'d iconv_lib \<Rightarrow> platform \<Rightarrow> 'd lua_State \<Rightarrow> 'd creturn option" where
  "Liconv lib p L =
     (case luaL_checkudata L 1 ICONV_TYPENAME of
        Inl e \<Rightarrow> Some (Inl e)
      | Inr (a, cd) \<Rightarrow>
          (case luaL_checklstring p L 2 of
             Inl e \<Rightarrow> Some (Inl e)
           | Inr (inbuf, L1) \<Rightarrow> Liconv_convert lib p L1 cd inbuf))"

text \<open>
  \<open>Liconv_closure\<close> reads the descriptor through its first upvalue without a check:
  \<open>lua_touserdata\<close> gives a null pointer for anything but a userdata.
\<close>

definition Liconv_closure ::
  "'d iconv_lib \<Rightarrow> platform \<Rightarrow> lua_value list \<Rightarrow> 'd lua_State \<Rightarrow> 'd creturn option" where
  "Liconv_closure lib p upvalues L =
     (case upvalues of
        LUserdata a # _ \<Rightarrow>
          (case udata L a of
             None \<Rightarrow> Some (Inl InvalidPointer)
           | Some cd \<Rightarrow>
               (case luaL_checklstring p L 1 of
                  Inl e \<Rightarrow> Some (Inl e)
                | Inr (inbuf, L1) \<Rightarrow> Liconv_convert lib p L1 cd inbuf))
      | _ \<Rightarrow> Some (Inl InvalidPointer))"

definition Liconv_open :: "'d iconv_lib \<Rightarrow> platform \<Rightarrow> 'd lua_State \<Rightarrow> 'd creturn" where
  "Liconv_open lib p L =
     (let L1 = (if is_table L 1 then lua_remove 1 L else L)
      in case Liconv_new lib p L1 of
           Inl e \<Rightarrow> Inl e
         | Inr (rets, L2) \<Rightarrow>
             if rets = 1 then Inr (rets, lua_pushcclosure1 Liconv_closure_fn L2)
             else Inr (rets, L2))"

subsection \<open>luaopen_iconv\<close>

text \<open>
  The fields of the module table in the order \<open>luaopen_iconv\<close> sets them (\<open>list\<close> is
  compiled only with \<open>HAS_ICONVLIST\<close> and is left out), and the metatable of the module.
\<close>

definition iconv_funcs :: "(string \<times> lua_value) list" where
  "iconv_funcs =
     [(''new'', LCClosure Liconv_new_fn []),
      (''iconv'', LCClosure Liconv_fn []),
      (''delete'', LCClosure Liconv_close_fn [])]"

definition luaopen_iconv :: "platform \<Rightarrow> (string \<times> lua_value) list" where
  "luaopen_iconv p =
     iconv_funcs @
     [(''ERROR_INCOMPLETE'', LNumber (EILSEQ p)),
      (''ERROR_INVALID'', LNumber (EINVAL p)),
      (''VERSION'', LString LIB_VERSION)]"

definition module_metatable :: "(string \<times> lua_value) list" where
  "module_metatable = [(''__call'', LCClosure Liconv_open_fn [])]"

text \<open>The metatable registered as \<open>iconv_t\<close>: its \<open>__index\<close> and its \<open>__gc\<close>.\<close>

definition iconv_t_index :: "platform \<Rightarrow> (string \<times> lua_value) list" where
  "iconv_t_index p = luaopen_iconv p"

definition iconv_t_gc :: lua_value where
  "iconv_t_gc = LCClosure Liconv_close_fn []"

section \<open>A library that follows iconv(3)\<close>

text \<open>
  Modelled from the spec: the transcoding primitive of the underlying library, which is
  not part of this repository. The specification (section 4.2) and iconv(3) describe
  one invocation: it converts one character after the other; for each character it
  advances the input by the bytes read and the output by the bytes written and updates
  the shift state of the descriptor. It stops when the input is used up (returning the
  number of irreversible conversions), at an illegal sequence (\<open>EILSEQ\<close>), at an
  incomplete sequence at the end of the input (\<open>EINVAL\<close>), or when the next character
  has no room in the output buffer (\<open>E2BIG\<close>).

  What one character does is left to the conversion: \<open>convert_char st b bs\<close> looks at
  the input \<open>b # bs\<close> in shift state \<open>st\<close>. \<open>Converted k out st' n\<close> reads \<open>b\<close> and
  \<open>k\<close> more bytes, writes \<open>out\<close>, moves to \<open>st'\<close> and counts \<open>n\<close> irreversible
  conversions.
\<close>

datatype 'st char_result = Converted nat string 'st nat | Illegal | Incomplete

record 'st codec =
  initial :: 'st
  convert_char :: "'st \<Rightarrow> char \<Rightarrow> string \<Rightarrow> 'st char_result"

type_synonym 'st descriptor = "'st codec \<times> 'st"

fun posix_iconv ::
  "platform \<Rightarrow> 'st descriptor \<Rightarrow> string \<Rightarrow> nat \<Rightarrow> 'st descriptor iconv_result" where
  "posix_iconv p (c, st) [] obleft =
     \<lparr>outcome = Inr 0, inrest = [], written = [], newcd = (c, st)\<rparr>"
| "posix_iconv p (c, st) (b # bs) obleft =
     (case convert_char c st b bs of
        Illegal \<Rightarrow>
          \<lparr>outcome = Inl (EILSEQ p), inrest = b # bs, written = [], newcd = (c, st)\<rparr>
      | Incomplete \<Rightarrow>
          \<lparr>outcome = Inl (EINVAL p), inrest = b # bs, written = [], newcd = (c, st)\<rparr>
      | Converted k out st' n \<Rightarrow>
          if obleft < length out
          then \<lparr>outcome = Inl (E2BIG p), inrest = b # bs, written = [], newcd = (c, st)\<rparr>
          else (let r = posix_iconv p (c, st') (drop k bs) (obleft - length out)
                in r\<lparr>outcome := (case outcome r of Inl e \<Rightarrow> Inl e | Inr m \<Rightarrow> Inr (n + m)),
                     written := out @ written r\<rparr>))"

text \<open>
  \<open>iconv_open\<close> looks the pair of names up in the registry of the library and gives a
  descriptor in the initial state of the conversion; the reset call puts a descriptor
  back into that state; \<open>iconv_close\<close> releases a valid descriptor.
\<close>

definition posix_lib ::
  "platform \<Rightarrow> (string \<Rightarrow> string \<Rightarrow> int + 'st codec) \<Rightarrow> 'st descriptor iconv_lib" where
  "posix_lib p registry =
     \<lparr>iconv_open = (\<lambda>tocode fromcode.
         case registry tocode fromcode of Inl e \<Rightarrow> Inl e | Inr c \<Rightarrow> Inr (c, initial c)),
      iconv = posix_iconv p,
      iconv_reset = (\<lambda>(c, st). (c, initial c)),
      iconv_close = (\<lambda>d. 0)\<rparr>"

text \<open>
  The one-shot conversion the chunked loop is compared with: a single call of the
  primitive on the whole input with an output buffer of \<open>room\<close> bytes.
\<close>

definition oneshot ::
  "'d iconv_lib \<Rightarrow> 'd \<Rightarrow> string \<Rightarrow> nat \<Rightarrow> 'd iconv_result" where
  "oneshot lib d input room = iconv lib d input room"

text \<open>Every character the conversion writes fits into one chunk of the buffer.\<close>

definition chars_fit :: "'st codec \<Rightarrow> nat \<Rightarrow> bool" where
  "chars_fit c room =
     (\<forall>st b bs k out st' n. convert_char c st b bs = Converted k out st' n \<longrightarrow> length out \<le> room)"

text \<open>
  POSIX gives \<open>E2BIG\<close> a value of its own, so that a full buffer is told apart from a
  sequence the conversion refuses.
\<close>

definition distinct_errno :: "platform \<Rightarrow> bool" where
  "distinct_errno p = (EILSEQ p \<noteq> E2BIG p \<and> EINVAL p \<noteq> E2BIG p)"

text \<open>
  The conversion of a whole input with no bound on the output: what is written, the
  descriptor at the end, and the error the conversion stopped at, if any. The proofs
  relate every call of \<open>posix_iconv\<close> and the loop of \<open>Liconv_convert\<close> to it.
\<close>

fun convert_all ::
  "platform \<Rightarrow> 'st descriptor \<Rightarrow> string \<Rightarrow> string \<times> 'st descriptor \<times> int option" where
  "convert_all p (c, st) [] = ([], (c, st), None)"
| "convert_all p (c, st) (b # bs) =
     (case convert_char c st b bs of
        Illegal \<Rightarrow> ([], (c, st), Some (EILSEQ p))
      | Incomplete \<Rightarrow> ([], (c, st), Some (EINVAL p))
      | Converted k out st' n \<Rightarrow>
          apfst ((@) out) (convert_all p (c, st') (drop k bs)))"

definition loop_spec :: "string \<Rightarrow> string \<times> 'd \<times> int option \<Rightarrow> 'd loop_exit" where
  "loop_spec B r =
     (case snd (snd r) of
        None \<Rightarrow> Done (B @ fst r) (fst (snd r))
      | Some e \<Rightarrow> Failed (B @ fst r) e (fst (snd r)))"

section \<open>A sample platform and a sample library\<close>

text \<open>The values of Linux and of Lua 5.4 on a 64-bit machine.\<close>

function decimal :: "nat \<Rightarrow> string" where
  "decimal n =
     (if n < 10 then [char_of (48 + n)] else decimal (n div 10) @ [char_of (48 + n mod 10)])"
  by pat_completeness auto
termination
  by (relation "measure id") auto

definition linux :: platform where
  "linux =
     \<lparr>E2BIG = 7, EILSEQ = 84, EINVAL = 22,
      strerror = (\<lambda>e. if e = 7 then ''Argument list too long''
                      else if e = 22 then ''Invalid argument''
                      else if e = 84 then ''Invalid or incomplete multibyte or wide character''
                      else ''Unknown error '' @ decimal (nat e)),
      LUAL_BUFFERSIZE = 1024,
      lua_number2str = (\<lambda>n. if n < 0 then CHR ''-'' # decimal (nat (- n)) else decimal (nat n))\<rparr>"

text \<open>The same platform with a Lua built for chunks of eight bytes.\<close>

definition small_chunks :: platform where
  "small_chunks = linux\<lparr>LUAL_BUFFERSIZE := 8\<rparr>"

text \<open>
  UTF-8 to ISO-8859-1: a character up to U+00FF is converted, a well-formed character
  beyond it cannot be represented and is refused as illegal, like a malformed sequence;
  a sequence cut off by the end of the input is incomplete. The conversion has no
  shift state.
\<close>

definition is_continuation :: "char \<Rightarrow> bool" where
  "is_continuation c = (128 \<le> (of_char c :: nat) \<and> (of_char c :: nat) < 192)"

definition utf8_to_latin1_char :: "bool \<Rightarrow> char \<Rightarrow> string \<Rightarrow> bool char_result" where
  "utf8_to_latin1_char st b bs =
     (let n = (of_char b :: nat)
      in if n < 128 then Converted 0 [b] st 0
         else if n < 194 \<or> 244 < n then Illegal
         else (let need = (if n < 224 then 1 else if n < 240 then 2 else 3 :: nat);
                   conts = take need bs
               in if \<not> list_all is_continuation conts then Illegal
                  else if length conts < need then Incomplete
                  else if n < 196
                  then Converted 1 [char_of ((n - 192) * 64 + ((of_char (hd conts) :: nat) - 128))] st 0
                  else Illegal))"

definition utf8_to_latin1 :: "bool codec" where
  "utf8_to_latin1 = \<lparr>initial = False, convert_char = utf8_to_latin1_char\<rparr>"

text \<open>
  ISO-8859-1 to UTF-16: the first character written is preceded by the byte order mark;
  the shift state records that the mark has been written.
\<close>

definition latin1_to_utf16_char :: "bool \<Rightarrow> char \<Rightarrow> string \<Rightarrow> bool char_result" where
  "latin1_to_utf16_char st b bs =
     Converted 0 ((if st then [] else [CHR 0xFF, CHR 0xFE]) @ [b, CHR 0x00]) True 0"

definition latin1_to_utf16 :: "bool codec" where
  "latin1_to_utf16 = \<lparr>initial = False, convert_char = latin1_to_utf16_char\<rparr>"

text \<open>
  ASCII to UTF-16: the same conversion with the same shift state, but a byte above 127
  is not ASCII and is refused as illegal.
\<close>

definition ascii_to_utf16_char :: "bool \<Rightarrow> char \<Rightarrow> string \<Rightarrow> bool char_result" where
  "ascii_to_utf16_char st b bs =
     (if (of_char b :: nat) < 128
      then Converted 0 ((if st then [] else [CHR 0xFF, CHR 0xFE]) @ [b, CHR 0x00]) True 0
      else Illegal)"

definition ascii_to_utf16 :: "bool codec" where
  "ascii_to_utf16 = \<lparr>initial = False, convert_char = ascii_to_utf16_char\<rparr>"

text \<open>
  The registry knows these three conversions. As in the GNU libraries, the empty name
  stands for the character set of the locale, here UTF-8. An unknown pair fails with
  \<open>EINVAL\<close>.
\<close>

definition locale_charset :: "string \<Rightarrow> string" where
  "locale_charset name = (if name = [] then ''UTF-8'' else name)"

definition sample_registry :: "platform \<Rightarrow> string \<Rightarrow> string \<Rightarrow> int + bool codec" where
  "sample_registry p tocode fromcode =
     (if locale_charset tocode = ''ISO-8859-1'' \<and> locale_charset fromcode = ''UTF-8''
      then Inr utf8_to_latin1
      else if locale_charset tocode = ''UTF-16'' \<and> locale_charset fromcode = ''ISO-8859-1''
      then Inr latin1_to_utf16
      else if locale_charset tocode = ''UTF-16'' \<and> locale_charset fromcode = ''ASCII''
      then Inr ascii_to_utf16
      else Inl (EINVAL p))"

definition sample_lib :: "platform \<Rightarrow> bool descriptor iconv_lib" where
  "sample_lib p = posix_lib p (sample_registry p)"

text \<open>A library whose \<open>iconv_close\<close> fails on every descriptor.\<close>

definition failing_close :: "'d iconv_lib \<Rightarrow> 'd iconv_lib" where
  "failing_close lib = lib\<lparr>iconv_close := (\<lambda>d. - 1)\<rparr>"

text \<open>A state with no userdata and no descriptor, and the given stack.\<close>

definition start :: "lua_value list \<Rightarrow> 'd lua_State" where
  "start args = \<lparr>stack = args, udata = Map.empty, next_udata = 0, descs = Map.empty, next_desc = 0\<rparr>"

text \<open>
  The state after one successful \<open>new\<close>, with the descriptor in state \<open>d\<close>, and the
  state after this handle has been closed.
\<close>

definition one_handle :: "'d \<Rightarrow> lua_value list \<Rightarrow> 'd lua_State" where
  "one_handle d args =
     \<lparr>stack = args, udata = [0 \<mapsto> Ptr 0], next_udata = 1, descs = [0 \<mapsto> d], next_desc = 1\<rparr>"

definition closed_handle :: "lua_value list \<Rightarrow> 'd lua_State" where
  "closed_handle args =
     \<lparr>stack = args, udata = [0 \<mapsto> NULL], next_udata = 1, descs = Map.empty, next_desc = 1\<rparr>"

section \<open>Properties\<close>

subsection \<open>The stack and the results\<close>

lemma returned_simps [simp]:
  "returned (Inl e) = Inl e" "returned (Inr (n, L)) = Inr (results n L)"
  by (simp_all add: returned_def)

lemma results_pushresult [simp]: "results (Suc 0) (luaL_pushresult B L) = [LString B]"
  by (simp add: results_def luaL_pushresult_def lua_push_def)

lemma results_newuserdata [simp]:
  "results (Suc 0) (lua_newuserdata cd L) = [LUserdata (next_udata L)]"
  by (simp add: results_def lua_newuserdata_def)

lemma results_nil_message [simp]:
  "results 2 (lua_pushstring s (lua_pushnil L)) = [LNil, LString s]"
  by (simp add: results_def lua_pushstring_def lua_pushnil_def lua_push_def)

lemma results_failure [simp]:
  "results 4 (lua_pushinteger e (lua_pushvalue (- 3) (lua_pushstring m
      (lua_pushnil (luaL_pushresult B L))))) = [LNil, LString m, LString B, LNumber e]"
  by (simp add: results_def lua_pushinteger_def lua_pushvalue_def lua_pushstring_def
      lua_pushnil_def luaL_pushresult_def lua_push_def index2value_def nth_append)

lemma push_fields [simp]:
  "udata (lua_push v L) = udata L" "descs (lua_push v L) = descs L"
  "next_udata (lua_push v L) = next_udata L" "next_desc (lua_push v L) = next_desc L"
  by (simp_all add: lua_push_def)

lemma checklstring_fields:
  assumes "luaL_checklstring p L i = Inr (s, L1)"
  shows "udata L1 = udata L" "descs L1 = descs L" "next_udata L1 = next_udata L"
    "next_desc L1 = next_desc L"
  using assms
  by (auto simp: luaL_checklstring_def split: option.splits lua_value.splits)

lemma checklstring_heap:
  "luaL_checklstring p L i = Inr (s, L1) \<Longrightarrow>
   udata L1 = udata L \<and> descs L1 = descs L \<and> next_udata L1 = next_udata L \<and>
   next_desc L1 = next_desc L"
  by (auto simp: luaL_checklstring_def split: option.splits lua_value.splits)

lemma checklstring_index:
  assumes "luaL_checklstring p L i = Inr (s, L1)" and "i \<noteq> j" and "0 < i" and "0 < j"
  shows "index2value L1 (int j) = index2value L (int j)"
  using assms
  by (auto simp: luaL_checklstring_def index2value_def Let_def nat_diff_distrib
      split: option.splits lua_value.splits)

lemma checklstring_string:
  "index2value L (int i) = Some (LString s) \<Longrightarrow> luaL_checklstring p L i = Inr (s, L)"
  by (simp add: luaL_checklstring_def)

lemma checklstring_rejects:
  "\<not> lua_isstring L (int i) \<Longrightarrow> luaL_checklstring p L i = Inl (BadArgument i ''string'')"
  by (auto simp: luaL_checklstring_def lua_isstring_def split: option.splits lua_value.splits)

lemma checklstring_accepts:
  "lua_isstring L (int i) \<Longrightarrow> \<exists>s L1. luaL_checklstring p L i = Inr (s, L1)"
  by (auto simp: luaL_checklstring_def lua_isstring_def split: option.splits lua_value.splits)

lemma checklstring_name:
  assumes "lua_isstring L (int i)" and "index2value L (int i) = Some v"
  shows "\<exists>L1. luaL_checklstring p L i = Inr (name_of p v, L1)"
  using assms
  by (auto simp: luaL_checklstring_def lua_isstring_def name_of_def
      split: option.splits lua_value.splits)

lemma checkudata_handle:
  "index2value L (int i) = Some (LUserdata a) \<Longrightarrow> udata L a = Some cd \<Longrightarrow>
   luaL_checkudata L i tname = Inr (a, cd)"
  by (simp add: luaL_checkudata_def)

subsection \<open>The wrappers and the two ways out of the loop\<close>

lemma Liconv_new_names:
  assumes "luaL_checklstring p L 1 = Inr (tocode, L1)"
    and "luaL_checklstring p L1 2 = Inr (fromcode, L2)"
  shows "returned (Liconv_new lib p L) =
        (case iconv_open lib (c_str tocode) (c_str fromcode) of
           Inl errno \<Rightarrow> Inr [LNil, LString (strerror p errno)]
         | Inr d \<Rightarrow> Inr [LUserdata (next_udata L)])"
  using assms checklstring_heap[OF assms(1)] checklstring_heap[OF assms(2)]
  by (simp add: Liconv_new_def split: sum.splits)

lemma Liconv_handle:
  assumes "index2value L 1 = Some (LUserdata a)" and "udata L a = Some cd"
    and "luaL_checklstring p L 2 = Inr (inbuf, L1)"
  shows "Liconv lib p L = Liconv_convert lib p L1 cd inbuf"
  using assms checkudata_handle[of L 1 a cd] by (simp add: Liconv_def)

lemma Liconv_closure_handle:
  assumes "udata L a = Some cd" and "luaL_checklstring p L 1 = Inr (inbuf, L1)"
  shows "Liconv_closure lib p (LUserdata a # ups) L = Liconv_convert lib p L1 cd inbuf"
  using assms by (simp add: Liconv_closure_def)

lemma convert_failed:
  assumes "descs L k = Some d"
    and "Liconv_loop lib p d inbuf [] (LUAL_BUFFERSIZE p) = Some (Failed B e d')"
  shows "Liconv_convert lib p L (Ptr k) inbuf =
     Some (Inr (4, lua_pushinteger e (lua_pushvalue (- 3) (lua_pushstring (strerror p e)
        (lua_pushnil (luaL_pushresult B (L\<lparr>descs := (descs L)(k \<mapsto> d')\<rparr>)))))))"
  using assms by (simp add: Liconv_convert_def)

lemma convert_done:
  assumes "descs L k = Some d"
    and "Liconv_loop lib p d inbuf [] (LUAL_BUFFERSIZE p) = Some (Done B d')"
  shows "Liconv_convert lib p L (Ptr k) inbuf =
     Some (Inr (1, luaL_pushresult B (L\<lparr>descs := (descs L)(k \<mapsto> iconv_reset lib d')\<rparr>)))"
  using assms by (simp add: Liconv_convert_def)

lemma convert_cases:
  assumes "descs L k = Some d" and "Liconv_convert lib p L (Ptr k) inbuf = Some (Inr (n, L1))"
  shows "(n = 1 \<and> (\<exists>B d'. Liconv_loop lib p d inbuf [] (LUAL_BUFFERSIZE p) = Some (Done B d') \<and>
                descs L1 k = Some (iconv_reset lib d'))) \<or>
         (n = 4 \<and> (\<exists>B e d'. Liconv_loop lib p d inbuf [] (LUAL_BUFFERSIZE p) = Some (Failed B e d') \<and>
                descs L1 k = Some d'))"
  using assms
  by (auto simp: Liconv_convert_def luaL_pushresult_def lua_pushnil_def lua_pushstring_def
      lua_pushvalue_def lua_pushinteger_def split: option.splits loop_exit.splits)

lemma convert_returned_cong:
  assumes "descs L k = descs M j"
  shows "map_option returned (Liconv_convert lib p L (Ptr k) inbuf) =
         map_option returned (Liconv_convert lib p M (Ptr j) inbuf)"
  using assms
  by (simp add: Liconv_convert_def split: option.splits loop_exit.splits)

lemma Liconv_loop_E2BIG:
  assumes "outcome (iconv lib d inbuf obleft) = Inl (E2BIG p)"
  shows "Liconv_loop lib p d inbuf B obleft =
           Liconv_loop lib p (newcd (iconv lib d inbuf obleft)) (inrest (iconv lib d inbuf obleft))
             (B @ written (iconv lib d inbuf obleft)) (LUAL_BUFFERSIZE p)"
  using assms by (subst Liconv_loop.simps) (simp add: Let_def)

subsection \<open>One call of the primitive and the conversion of the whole input\<close>

text \<open>
  A call that does not end with a full buffer has converted the whole input, up to the
  error if there is one.
\<close>

lemma posix_iconv_final:
  "outcome (posix_iconv p d inp ob) \<noteq> Inl (E2BIG p) \<Longrightarrow>
   convert_all p d inp =
     (written (posix_iconv p d inp ob), newcd (posix_iconv p d inp ob),
      case outcome (posix_iconv p d inp ob) of Inl e \<Rightarrow> Some e | Inr n \<Rightarrow> None)"
proof (induction p d inp ob rule: posix_iconv.induct)
  case (1 p c st obleft)
  then show ?case by simp
next
  case (2 p c st b bs obleft)
  show ?case
  proof (cases "convert_char c st b bs")
    case (Converted k out st' n)
    show ?thesis
    proof (cases "obleft < length out")
      case True
      with Converted 2 show ?thesis by simp
    next
      case False
      let ?r = "posix_iconv p (c, st') (drop k bs) (obleft - length out)"
      from 2(2) Converted False have "outcome ?r \<noteq> Inl (E2BIG p)"
        by (auto simp: Let_def split: sum.splits)
      with 2(1)[OF Converted False] have "convert_all p (c, st') (drop k bs) =
         (written ?r, newcd ?r, case outcome ?r of Inl e \<Rightarrow> Some e | Inr n \<Rightarrow> None)" by simp
      with Converted False show ?thesis
        by (simp add: Let_def split: sum.splits)
    qed
  qed simp_all
qed

lemma posix_iconv_success_rest:
  "outcome (posix_iconv p d inp ob) = Inr n \<Longrightarrow> inrest (posix_iconv p d inp ob) = []"
proof (induction p d inp ob arbitrary: n rule: posix_iconv.induct)
  case 1 then show ?case by simp
next
  case (2 p c st b bs obleft)
  then show ?case
    by (cases "convert_char c st b bs") (auto simp: Let_def split: if_splits sum.splits)
qed

lemma posix_iconv_rest_le:
  "length (inrest (posix_iconv p d inp ob)) \<le> length inp"
proof (induction p d inp ob rule: posix_iconv.induct)
  case 1 then show ?case by simp
next
  case (2 p c st b bs obleft)
  show ?case
  proof (cases "convert_char c st b bs")
    case (Converted k out st' n)
    with 2 show ?thesis
      by (cases "obleft < length out") (auto simp: Let_def intro: le_trans)
  qed simp_all
qed

text \<open>
  A call that ends with a full buffer has converted a prefix; it has made progress when
  every character fits into the buffer it was given.
\<close>

lemma posix_iconv_progress:
  assumes "distinct_errno p" and "chars_fit c ob"
    and "outcome (posix_iconv p (c, st) inp ob) = Inl (E2BIG p)"
  shows "length (inrest (posix_iconv p (c, st) inp ob)) < length inp"
proof (cases inp)
  case Nil
  with assms show ?thesis by simp
next
  case (Cons b bs)
  show ?thesis
  proof (cases "convert_char c st b bs")
    case (Converted k out st' n)
    with assms(2) have "length out \<le> ob" unfolding chars_fit_def by blast
    moreover have "length (inrest (posix_iconv p (c, st') (drop k bs) (ob - length out))) \<le> length (drop k bs)"
      by (rule posix_iconv_rest_le)
    ultimately show ?thesis using Cons Converted by (simp add: Let_def)
  next
    case Illegal
    with assms Cons show ?thesis by (simp add: distinct_errno_def)
  next
    case Incomplete
    with assms Cons show ?thesis by (simp add: distinct_errno_def)
  qed
qed

lemma posix_iconv_full:
  assumes "distinct_errno p"
  shows "outcome (posix_iconv p d inp ob) = Inl (E2BIG p) \<Longrightarrow>
     convert_all p d inp =
       apfst ((@) (written (posix_iconv p d inp ob)))
         (convert_all p (newcd (posix_iconv p d inp ob)) (inrest (posix_iconv p d inp ob)))"
  using assms
proof (induction p d inp ob rule: posix_iconv.induct)
  case (1 p c st obleft)
  then show ?case by simp
next
  case (2 p c st b bs obleft)
  show ?case
  proof (cases "convert_char c st b bs")
    case (Converted k out st' n)
    show ?thesis
    proof (cases "obleft < length out")
      case True
      with Converted show ?thesis by (cases "convert_all p (c, st') (drop k bs)") simp
    next
      case False
      let ?r = "posix_iconv p (c, st') (drop k bs) (obleft - length out)"
      from 2(2) Converted False have full: "outcome ?r = Inl (E2BIG p)"
        by (auto simp: Let_def split: sum.splits)
      note IH = 2(1)[OF Converted False full 2(3)]
      from IH Converted False show ?thesis
        by (cases "convert_all p (newcd ?r) (inrest ?r)") (simp add: Let_def)
    qed
  next
    case Illegal
    with 2(2,3) show ?thesis by (simp add: distinct_errno_def)
  next
    case Incomplete
    with 2(2,3) show ?thesis by (simp add: distinct_errno_def)
  qed
qed

lemma posix_iconv_enough_room:
  assumes "distinct_errno p"
  shows "length (fst (convert_all p d inp)) \<le> room \<Longrightarrow>
         outcome (posix_iconv p d inp room) \<noteq> Inl (E2BIG p)"
  using assms
proof (induction p d inp room rule: posix_iconv.induct)
  case (1 p c st obleft)
  then show ?case by simp
next
  case (2 p c st b bs obleft)
  show ?case
  proof (cases "convert_char c st b bs")
    case (Converted k out st' n)
    with 2(2) have len: "length out + length (fst (convert_all p (c, st') (drop k bs))) \<le> obleft"
      by (cases "convert_all p (c, st') (drop k bs)") simp
    then have fits: "\<not> obleft < length out" by simp
    from len have "length (fst (convert_all p (c, st') (drop k bs))) \<le> obleft - length out"
      by simp
    from 2(1)[OF Converted fits this 2(3)] Converted fits show ?thesis
      by (auto simp: Let_def split: sum.splits)
  next
    case Illegal
    with 2(3) show ?thesis by (simp add: distinct_errno_def)
  next
    case Incomplete
    with 2(3) show ?thesis by (simp add: distinct_errno_def)
  qed
qed

lemma posix_iconv_codec:
  "fst (newcd (posix_iconv p d inp ob)) = fst d"
proof (induction p d inp ob rule: posix_iconv.induct)
  case 1 then show ?case by simp
next
  case (2 p c st b bs obleft)
  show ?case
  proof (cases "convert_char c st b bs")
    case (Converted k out st' n)
    with 2 show ?thesis
      by (cases "obleft < length out") (auto simp: Let_def)
  qed simp_all
qed

lemma iconv_posix_lib [simp]: "iconv (posix_lib p reg) = posix_iconv p"
  by (simp add: posix_lib_def)

subsection \<open>The loop over a library that follows iconv(3)\<close>

lemma loop_spec_apfst: "loop_spec B (apfst ((@) w) r) = loop_spec (B @ w) r"
  by (cases r) (simp add: loop_spec_def split: option.splits)

text \<open>
  The loop ends, and it leaves with the conversion of the whole input: by induction on
  the length of the input that is left when a chunk is full.
\<close>

lemma Liconv_loop_posix:
  assumes "distinct_errno p" and "chars_fit (fst d) (LUAL_BUFFERSIZE p)"
  shows "Liconv_loop (posix_lib p reg) p d inp B (LUAL_BUFFERSIZE p) =
           Some (loop_spec B (convert_all p d inp))"
  using assms(2)
proof (induction "length inp" arbitrary: inp d B rule: less_induct)
  case less
  let ?r = "posix_iconv p d inp (LUAL_BUFFERSIZE p)"
  show ?case
  proof (cases "outcome ?r")
    case (Inl e)
    show ?thesis
    proof (cases "e = E2BIG p")
      case True
      with Inl have full: "outcome ?r = Inl (E2BIG p)" by simp
      obtain c st where d: "d = (c, st)" by (cases d)
      have "length (inrest ?r) < length inp"
        using posix_iconv_progress[OF assms(1) _ full[unfolded d]] less.prems d by simp
      moreover have "chars_fit (fst (newcd ?r)) (LUAL_BUFFERSIZE p)"
        using less.prems by (simp add: posix_iconv_codec)
      ultimately have "Liconv_loop (posix_lib p reg) p (newcd ?r) (inrest ?r) (B @ written ?r) (LUAL_BUFFERSIZE p)
          = Some (loop_spec (B @ written ?r) (convert_all p (newcd ?r) (inrest ?r)))"
        by (rule less.hyps)
      then show ?thesis
        using full posix_iconv_full[OF assms(1) full]
        by (subst Liconv_loop.simps) (simp add: Let_def loop_spec_apfst)
    next
      case False
      with Inl have "outcome ?r \<noteq> Inl (E2BIG p)" by simp
      from posix_iconv_final[OF this] Inl False show ?thesis
        by (subst Liconv_loop.simps) (simp add: Let_def loop_spec_def)
    qed
  next
    case (Inr n)
    then have nf: "outcome ?r \<noteq> Inl (E2BIG p)" by simp
    have rest: "inrest ?r = []" using Inr by (rule posix_iconv_success_rest)
    obtain c st where nd: "newcd ?r = (c, st)" by (cases "newcd ?r")
    have again: "\<And>B' ob. Liconv_loop (posix_lib p reg) p (c, st) [] B' ob = Some (Done B' (c, st))"
      by (subst Liconv_loop.simps) (simp add: Let_def)
    from posix_iconv_final[OF nf] Inr rest nd again show ?thesis
      by (subst Liconv_loop.simps) (simp add: Let_def loop_spec_def)
  qed
qed

lemma convert_posix:
  assumes "distinct_errno p" and "chars_fit c (LUAL_BUFFERSIZE p)" and "descs L k = Some (c, st)"
    and "outcome (posix_iconv p (c, st) inbuf room) \<noteq> Inl (E2BIG p)"
  shows "Liconv_loop (posix_lib p reg) p (c, st) inbuf [] (LUAL_BUFFERSIZE p) =
    Some (case outcome (posix_iconv p (c, st) inbuf room) of
            Inl e \<Rightarrow> Failed (written (posix_iconv p (c, st) inbuf room)) e
                       (newcd (posix_iconv p (c, st) inbuf room))
          | Inr n \<Rightarrow> Done (written (posix_iconv p (c, st) inbuf room))
                       (newcd (posix_iconv p (c, st) inbuf room)))"
proof -
  have "chars_fit (fst (c, st)) (LUAL_BUFFERSIZE p)" using assms(2) by simp
  from Liconv_loop_posix[OF assms(1) this, of reg inbuf "[]"] posix_iconv_final[OF assms(4)]
  show ?thesis by (simp add: loop_spec_def split: sum.splits)
qed

text \<open>
  Without the bound on the characters the loop may run for ever, but when it leaves, it
  leaves with the conversion of the whole input.
\<close>

lemma Liconv_loop_posix_result:
  assumes "Liconv_loop lib p d inbuf B obleft = Some x"
  shows "lib = posix_lib p reg \<Longrightarrow> distinct_errno p \<Longrightarrow>
         x = loop_spec B (convert_all p d inbuf)"
proof (induction rule: Liconv_loop.raw_induct[OF _ assms])
  case (1 loop lib p d inbuf B obleft x)
  let ?r = "posix_iconv p d inbuf obleft"
  from 1(2,3) have step:
    "(case outcome ?r of
        Inl errno \<Rightarrow> if errno = E2BIG p
          then loop lib p (newcd ?r) (inrest ?r) (B @ written ?r) (LUAL_BUFFERSIZE p)
          else Some (Failed (B @ written ?r) errno (newcd ?r))
      | Inr ret \<Rightarrow> if ret \<noteq> 0
          then loop lib p (newcd ?r) (inrest ?r) (B @ written ?r) (obleft - length (written ?r))
          else Some (Done (B @ written ?r) (newcd ?r))) = Some x"
    by (simp add: Let_def)
  show ?case
  proof (cases "outcome ?r")
    case (Inl e)
    show ?thesis
    proof (cases "e = E2BIG p")
      case True
      with Inl have full: "outcome ?r = Inl (E2BIG p)" by simp
      with step have "loop lib p (newcd ?r) (inrest ?r) (B @ written ?r) (LUAL_BUFFERSIZE p) = Some x"
        by simp
      from 1(1)[OF this 1(3,4)] posix_iconv_full[OF 1(4) full] show ?thesis
        by (simp add: loop_spec_apfst)
    next
      case False
      with Inl have "outcome ?r \<noteq> Inl (E2BIG p)" by simp
      from posix_iconv_final[OF this] Inl False step show ?thesis
        by (auto simp: loop_spec_def)
    qed
  next
    case (Inr n)
    then have nf: "outcome ?r \<noteq> Inl (E2BIG p)" by simp
    note fin = posix_iconv_final[OF nf]
    show ?thesis
    proof (cases "n = 0")
      case True
      with Inr step fin show ?thesis by (auto simp: loop_spec_def)
    next
      case False
      with Inr step have "loop lib p (newcd ?r) (inrest ?r) (B @ written ?r) (obleft - length (written ?r)) = Some x"
        by simp
      from 1(1)[OF this 1(3,4)] have x: "x = loop_spec (B @ written ?r) (convert_all p (newcd ?r) (inrest ?r))" .
      have "inrest ?r = []" using Inr by (rule posix_iconv_success_rest)
      with x fin Inr show ?thesis
        by (cases "newcd ?r") (simp add: loop_spec_def)
    qed
  qed
qed

lemma oneshot_enough_room:
  assumes "distinct_errno p" and "convert_all p d inbuf = (w, d', e)" and "length w \<le> room"
  shows "written (oneshot (posix_lib p reg) d inbuf room) = w \<and>
         outcome (oneshot (posix_lib p reg) d inbuf room) \<noteq> Inl (E2BIG p) \<and>
         (case outcome (oneshot (posix_lib p reg) d inbuf room) of
            Inl x \<Rightarrow> Some x | Inr n \<Rightarrow> None) = e"
proof -
  from assms(2,3) have "length (fst (convert_all p d inbuf)) \<le> room" by simp
  from posix_iconv_enough_room[OF assms(1) this]
  have nf: "outcome (posix_iconv p d inbuf room) \<noteq> Inl (E2BIG p)" .
  from posix_iconv_final[OF nf] assms(2) nf show ?thesis
    by (simp add: oneshot_def)
qed

lemma Liconv_loop_codec:
  assumes "Liconv_loop lib p d inbuf B obleft = Some x"
  shows "lib = posix_lib p reg \<Longrightarrow> fst (exit_cd x) = fst d"
proof (induction rule: Liconv_loop.raw_induct[OF _ assms])
  case (1 loop lib p d inbuf B obleft x)
  let ?r = "posix_iconv p d inbuf obleft"
  have c: "fst (newcd ?r) = fst d" by (rule posix_iconv_codec)
  from 1(2,3) have step:
    "(case outcome ?r of
        Inl errno \<Rightarrow> if errno = E2BIG p
          then loop lib p (newcd ?r) (inrest ?r) (B @ written ?r) (LUAL_BUFFERSIZE p)
          else Some (Failed (B @ written ?r) errno (newcd ?r))
      | Inr ret \<Rightarrow> if ret \<noteq> 0
          then loop lib p (newcd ?r) (inrest ?r) (B @ written ?r) (obleft - length (written ?r))
          else Some (Done (B @ written ?r) (newcd ?r))) = Some x"
    by (simp add: Let_def)
  show ?case
  proof (cases "outcome ?r")
    case (Inl e)
    show ?thesis
    proof (cases "e = E2BIG p")
      case True
      with Inl step have "loop lib p (newcd ?r) (inrest ?r) (B @ written ?r) (LUAL_BUFFERSIZE p) = Some x"
        by simp
      from 1(1)[OF this 1(3)] c show ?thesis by simp
    next
      case False
      with Inl step c show ?thesis by auto
    qed
  next
    case (Inr n)
    show ?thesis
    proof (cases "n = 0")
      case True
      with Inr step c show ?thesis by auto
    next
      case False
      with Inr step have "loop lib p (newcd ?r) (inrest ?r) (B @ written ?r) (obleft - length (written ?r)) = Some x"
        by simp
      from 1(1)[OF this 1(3)] c show ?thesis by simp
    qed
  qed
qed

subsection \<open>The states of the module\<close>

text \<open>
  Every function keeps the state consistent, so that no call reads through a pointer
  to a descriptor the library has released.
\<close>

lemma consistent_start: "consistent (start args)"
  by (simp add: consistent_def start_def)

lemma consistent_ptr:
  "consistent L \<Longrightarrow> udata L a = Some (Ptr k) \<Longrightarrow> \<exists>d. descs L k = Some d"
  by (auto simp: consistent_def)

lemma consistent_new:
  assumes "consistent L" and "Liconv_new lib p L = Inr (n, L')"
  shows "consistent L'"
proof -
  from assms(2) obtain t L1 f L2 where
    c1: "luaL_checklstring p L 1 = Inr (t, L1)" and c2: "luaL_checklstring p L1 2 = Inr (f, L2)"
    by (auto simp: Liconv_new_def split: sum.splits)
  from checklstring_heap[OF c1] checklstring_heap[OF c2] assms(1)
  have c: "consistent L2" by (simp add: consistent_def)
  show ?thesis
  proof (cases "iconv_open lib (c_str t) (c_str f)")
    case (Inl e)
    with assms(2) c1 c2 have "L' = lua_pushstring (strerror p e) (lua_pushnil L2)"
      by (simp add: Liconv_new_def)
    with c show ?thesis
      by (simp add: consistent_def lua_pushstring_def lua_pushnil_def)
  next
    case (Inr d)
    with assms(2) c1 c2 have L': "L' = lua_newuserdata (Ptr (next_desc L2))
                    (L2\<lparr>descs := (descs L2)(next_desc L2 \<mapsto> d),
                        next_desc := Suc (next_desc L2)\<rparr>)"
      by (simp add: Liconv_new_def)
    from c show ?thesis unfolding L' consistent_def lua_newuserdata_def
      by (fastforce simp: less_Suc_eq split: if_splits)
  qed
qed

lemma consistent_open:
  assumes "consistent L" and "Liconv_open lib p L = Inr (n, L')"
  shows "consistent L'"
proof -
  let ?L1 = "if is_table L 1 then lua_remove 1 L else L"
  have h: "consistent ?L1" using assms(1) by (simp add: consistent_def lua_remove_def)
  from assms(2) obtain m L2 where new: "Liconv_new lib p ?L1 = Inr (m, L2)"
    and L': "L' = (if m = 1 then lua_pushcclosure1 Liconv_closure_fn L2 else L2)"
    by (auto simp: Liconv_open_def Let_def split: sum.splits if_splits)
  from consistent_new[OF h new] L' show ?thesis
    by (auto simp: consistent_def lua_pushcclosure1_def split: list.splits)
qed

lemma consistent_close:
  assumes "consistent L" and "Liconv_close lib L = Inr (n, L')"
  shows "consistent L'"
proof -
  from assms(2) obtain a cd where ck: "luaL_checkudata L 1 ICONV_TYPENAME = Inr (a, cd)"
    by (auto simp: Liconv_close_def split: sum.splits)
  then have ua: "udata L a = Some cd"
    by (auto simp: luaL_checkudata_def split: option.splits lua_value.splits)
  show ?thesis
  proof (cases cd)
    case NULL
    with assms ck show ?thesis by (simp add: Liconv_close_def)
  next
    case (Ptr k)
    with assms(2) ck obtain d where d: "descs L k = Some d"
      by (auto simp: Liconv_close_def split: option.splits)
    show ?thesis
    proof (cases "iconv_close lib d = 0")
      case False
      with assms ck Ptr d show ?thesis by (simp add: Liconv_close_def)
    next
      case True
      with assms(2) ck Ptr d have L': "L' = L\<lparr>udata := (udata L)(a \<mapsto> NULL),
                                   descs := (descs L)(k := None)\<rparr>"
        by (simp add: Liconv_close_def)
      from assms(1) ua Ptr show ?thesis unfolding L' consistent_def
        by (auto split: if_splits)
    qed
  qed
qed

lemma consistent_convert:
  assumes "consistent L" and "Liconv_convert lib p L cd inbuf = Some (Inr (n, L'))"
  shows "consistent L'"
  using assms
  by (auto simp: Liconv_convert_def consistent_def lua_pushstring_def lua_pushnil_def
      lua_pushinteger_def lua_pushvalue_def luaL_pushresult_def
      split: iconv_t.splits option.splits loop_exit.splits if_splits)

lemma consistent_Liconv:
  assumes "consistent L" and "Liconv lib p L = Some (Inr (n, L'))"
  shows "consistent L'"
proof -
  from assms(2) obtain cd s L1 where c: "luaL_checklstring p L 2 = Inr (s, L1)"
    and conv: "Liconv_convert lib p L1 cd s = Some (Inr (n, L'))"
    by (auto simp: Liconv_def split: sum.splits)
  from checklstring_heap[OF c] assms(1) have "consistent L1" by (simp add: consistent_def)
  from consistent_convert[OF this conv] show ?thesis .
qed

lemma consistent_closure:
  assumes "consistent L" and "Liconv_closure lib p ups L = Some (Inr (n, L'))"
  shows "consistent L'"
proof -
  from assms(2) obtain cd s L1 where c: "luaL_checklstring p L 1 = Inr (s, L1)"
    and conv: "Liconv_convert lib p L1 cd s = Some (Inr (n, L'))"
    by (auto simp: Liconv_closure_def split: sum.splits list.splits lua_value.splits option.splits)
  from checklstring_heap[OF c] assms(1) have "consistent L1" by (simp add: consistent_def)
  from consistent_convert[OF this conv] show ?thesis .
qed

lemma no_invalid_pointer:
  assumes "consistent L"
  shows "Liconv_close lib L \<noteq> Inl InvalidPointer"
    and "Liconv lib p L \<noteq> Some (Inl InvalidPointer)"
proof -
  show "Liconv_close lib L \<noteq> Inl InvalidPointer"
    using consistent_ptr[OF assms]
    by (fastforce simp: Liconv_close_def luaL_checkudata_def
        split: sum.splits option.splits lua_value.splits iconv_t.splits if_splits)
  have conv: "Liconv_convert lib p M cd s \<noteq> Some (Inl InvalidPointer)"
    if "udata L a = Some cd" and "descs M = descs L" for M :: "'a lua_State" and a cd s
    using consistent_ptr[OF assms, of a] that
    by (fastforce simp: Liconv_convert_def split: iconv_t.splits option.splits loop_exit.splits)
  show "Liconv lib p L \<noteq> Some (Inl InvalidPointer)"
  proof (cases "luaL_checkudata L 1 ICONV_TYPENAME")
    case (Inl e)
    then show ?thesis
      by (auto simp: Liconv_def luaL_checkudata_def split: option.splits lua_value.splits)
  next
    case (Inr r)
    then obtain a cd where r: "r = (a, cd)" and ua: "udata L a = Some cd"
      by (cases r) (auto simp: luaL_checkudata_def split: option.splits lua_value.splits)
    show ?thesis
    proof (cases "luaL_checklstring p L 2")
      case (Inl e)
      with Inr r show ?thesis
        by (auto simp: Liconv_def luaL_checklstring_def split: option.splits lua_value.splits)
    next
      case (Inr q)
      then obtain s L1 where q: "q = (s, L1)" by (cases q)
      from checklstring_heap[OF Inr[unfolded q]] have "descs L1 = descs L" by simp
      from conv[OF ua this] \<open>luaL_checkudata L 1 ICONV_TYPENAME = Inr r\<close> r Inr q show ?thesis
        by (simp add: Liconv_def)
    qed
  qed
qed

subsection \<open>A closed handle stays closed\<close>

text \<open>
  No function of the module opens a closed handle again: a block that holds \<open>NULL\<close>
  holds it after every call that returns.
\<close>

lemma closed_after_new:
  assumes "udata L a = Some NULL" and "a < next_udata L" and "Liconv_new lib p L = Inr (n, L')"
  shows "udata L' a = Some NULL \<and> a < next_udata L'"
proof -
  from assms(3) obtain t L1 f L2 where
    c1: "luaL_checklstring p L 1 = Inr (t, L1)" and c2: "luaL_checklstring p L1 2 = Inr (f, L2)"
    by (auto simp: Liconv_new_def split: sum.splits)
  from checklstring_heap[OF c1] checklstring_heap[OF c2] assms(1,2)
  have "udata L2 a = Some NULL" "a < next_udata L2" by simp_all
  with assms(3) c1 c2 show ?thesis
    by (auto simp: Liconv_new_def lua_newuserdata_def lua_pushstring_def lua_pushnil_def
        split: sum.splits)
qed

lemma closed_after_open:
  assumes "udata L a = Some NULL" and "a < next_udata L" and "Liconv_open lib p L = Inr (n, L')"
  shows "udata L' a = Some NULL \<and> a < next_udata L'"
proof -
  let ?L1 = "if is_table L 1 then lua_remove 1 L else L"
  have h: "udata ?L1 a = Some NULL" "a < next_udata ?L1"
    using assms(1,2) by (simp_all add: lua_remove_def)
  from assms(3) obtain m L2 where new: "Liconv_new lib p ?L1 = Inr (m, L2)"
    and L': "L' = (if m = 1 then lua_pushcclosure1 Liconv_closure_fn L2 else L2)"
    by (auto simp: Liconv_open_def Let_def split: sum.splits if_splits)
  from closed_after_new[OF h new] L' show ?thesis
    by (auto simp: lua_pushcclosure1_def split: list.splits)
qed

lemma closed_after_close:
  assumes "udata L a = Some NULL" and "a < next_udata L" and "Liconv_close lib L = Inr (n, L')"
  shows "udata L' a = Some NULL \<and> a < next_udata L'"
  using assms
  by (auto simp: Liconv_close_def luaL_checkudata_def
      split: sum.splits option.splits lua_value.splits iconv_t.splits if_splits)

lemma closed_after_convert:
  assumes "udata L a = Some NULL" and "a < next_udata L"
    and "Liconv_convert lib p L cd inbuf = Some (Inr (n, L'))"
  shows "udata L' a = Some NULL \<and> a < next_udata L'"
  using assms
  by (auto simp: Liconv_convert_def lua_pushstring_def lua_pushnil_def lua_pushinteger_def
      lua_pushvalue_def luaL_pushresult_def
      split: iconv_t.splits option.splits loop_exit.splits)

lemma closed_after_Liconv:
  assumes "udata L a = Some NULL" and "a < next_udata L" and "Liconv lib p L = Some (Inr (n, L'))"
  shows "udata L' a = Some NULL \<and> a < next_udata L'"
proof -
  from assms(3) obtain b cd s L1 where c: "luaL_checklstring p L 2 = Inr (s, L1)"
    and conv: "Liconv_convert lib p L1 cd s = Some (Inr (n, L'))"
    by (auto simp: Liconv_def split: sum.splits)
  from checklstring_heap[OF c] assms(1,2) have "udata L1 a = Some NULL" "a < next_udata L1"
    by simp_all
  from closed_after_convert[OF this conv] show ?thesis .
qed

lemma closed_after_closure:
  assumes "udata L a = Some NULL" and "a < next_udata L"
    and "Liconv_closure lib p ups L = Some (Inr (n, L'))"
  shows "udata L' a = Some NULL \<and> a < next_udata L'"
proof -
  from assms(3) obtain cd s L1 where c: "luaL_checklstring p L 1 = Inr (s, L1)"
    and conv: "Liconv_convert lib p L1 cd s = Some (Inr (n, L'))"
    by (auto simp: Liconv_closure_def split: sum.splits list.splits lua_value.splits option.splits)
  from checklstring_heap[OF c] assms(1,2) have "udata L1 a = Some NULL" "a < next_udata L1"
    by simp_all
  from closed_after_convert[OF this conv] show ?thesis .
qed

subsection \<open>Evaluation on the sample library\<close>

lemmas sample_defs = sample_lib_def posix_lib_def sample_registry_def locale_charset_def
  linux_def small_chunks_def utf8_to_latin1_def utf8_to_latin1_char_def latin1_to_utf16_def
  latin1_to_utf16_char_def ascii_to_utf16_def ascii_to_utf16_char_def is_continuation_def
  one_handle_def closed_handle_def start_def failing_close_def char_of_def bit_0

lemmas api_defs = index2value_def lua_push_def lua_pushnil_def lua_pushstring_def
  lua_pushinteger_def lua_pushvalue_def luaL_pushresult_def lua_remove_def is_table_def
  luaL_checklstring_def luaL_checkudata_def lua_newuserdata_def lua_pushcclosure1_def
  c_str_def results_def returned_def

lemmas binding_defs = Liconv_new_def Liconv_close_def Liconv_convert_def Liconv_def
  Liconv_closure_def Liconv_open_def Liconv_loop.simps Let_def

lemma utf8_to_latin1_fits: "0 < room \<Longrightarrow> chars_fit utf8_to_latin1 room"
  by (auto simp: chars_fit_def utf8_to_latin1_def utf8_to_latin1_char_def Let_def
      split: if_splits)

lemma latin1_to_utf16_fits: "4 \<le> room \<Longrightarrow> chars_fit latin1_to_utf16 room"
  by (auto simp: chars_fit_def latin1_to_utf16_def latin1_to_utf16_char_def split: if_splits)

lemma distinct_errno_linux: "distinct_errno linux" "distinct_errno small_chunks"
  by (simp_all add: distinct_errno_def linux_def small_chunks_def)

lemma luaopen_constants:
  "map_of (luaopen_iconv p) ''ERROR_INCOMPLETE'' = Some (LNumber (EILSEQ p))"
  "map_of (luaopen_iconv p) ''ERROR_INVALID'' = Some (LNumber (EINVAL p))"
  by (simp_all add: luaopen_iconv_def iconv_funcs_def)

section \<open>The claims\<close>

text \<open>
  Claim C1: the module exports \<open>ERROR_INCOMPLETE\<close> with the value of the error code of
  an incomplete sequence (\<open>EINVAL\<close>) and \<open>ERROR_INVALID\<close> with that of an illegal
  sequence (\<open>EILSEQ\<close>), so that a conversion failing on a truncated trailing sequence
  returns \<open>ERROR_INCOMPLETE\<close>.

  \<open>luaopen_iconv\<close> stores the two values the other way round. On Linux a conversion
  from UTF-8 of the truncated sequence E2 82 returns the code 22 (\<open>EINVAL\<close>), while
  \<open>ERROR_INCOMPLETE\<close> is 84 (\<open>EILSEQ\<close>) and \<open>ERROR_INVALID\<close> is 22.
\<close>

theorem incomplete_code_differs_from_ERROR_INCOMPLETE:
  "map_option returned (Liconv (sample_lib linux) linux
      (one_handle (utf8_to_latin1, False) [LUserdata 0, LString [CHR 0xE2, CHR 0x82]])) =
     Some (Inr [LNil, LString ''Invalid argument'', LString [], LNumber 22]) \<and>
   map_of (luaopen_iconv linux) ''ERROR_INCOMPLETE'' = Some (LNumber 84) \<and>
   map_of (luaopen_iconv linux) ''ERROR_INVALID'' = Some (LNumber 22)"
  by (simp add: binding_defs sample_defs api_defs luaopen_iconv_def iconv_funcs_def)

text \<open>
  Claim C2: a convert call that fails with an error of the library returns
  \<open>(nil, message, handle, code)\<close>, its third value being the handle convert was called
  on.

  The third value is not the handle. Here the handle is the userdata 0 at index 1, and
  the third value returned is the string converted before the illegal sequence.
\<close>

theorem handle_not_echoed_counterexample:
  "map_option returned (Liconv (sample_lib linux) linux
      (one_handle (utf8_to_latin1, False)
         [LUserdata 0, LString [CHR ''a'', CHR 0xE2, CHR 0x82, CHR 0xAC]])) =
     Some (Inr [LNil, LString ''Invalid or incomplete multibyte or wide character'',
                LString ''a'', LNumber 84]) \<and>
   index2value (one_handle (utf8_to_latin1, False)
         [LUserdata 0, LString [CHR ''a'', CHR 0xE2, CHR 0x82, CHR 0xAC]]) 1 = Some (LUserdata 0)"
  by (simp add: binding_defs sample_defs api_defs)

text \<open>
  Claim C2, as the code has it: a convert call that fails with an error of the library
  returns \<open>(nil, message, output, code)\<close>, where the third value is the string
  accumulated in the buffer when the loop was left, the message is \<open>strerror\<close> of the
  code and the code is \<open>errno\<close>.
\<close>

theorem failure_returns_output_not_handle:
  assumes "index2value L 1 = Some (LUserdata a)" and "udata L a = Some (Ptr k)"
    and "descs L k = Some d" and "luaL_checklstring p L 2 = Inr (inbuf, L1)"
    and "Liconv_loop lib p d inbuf [] (LUAL_BUFFERSIZE p) = Some (Failed B e d')"
  shows "map_option returned (Liconv lib p L) =
           Some (Inr [LNil, LString (strerror p e), LString B, LNumber e])"
proof -
  have "descs L1 k = Some d" using assms(3,4) by (simp add: checklstring_fields)
  from convert_failed[OF this assms(5)] Liconv_handle[OF assms(1,2,4)]
  show ?thesis by simp
qed

theorem failure_returns_output_not_handle_witness:
  "map_option returned (Liconv (sample_lib linux) linux
      (one_handle (utf8_to_latin1, False)
         [LUserdata 0, LString [CHR 0xC3, CHR 0xA9, CHR 0xFF]])) =
     Some (Inr [LNil, LString (strerror linux 84), LString [CHR 0xE9], LNumber 84])"
proof -
  let ?L = "one_handle (utf8_to_latin1, False)
              [LUserdata 0, LString [CHR 0xC3, CHR 0xA9, CHR 0xFF]]"
  have h1: "index2value ?L 1 = Some (LUserdata 0)" by (simp add: sample_defs api_defs)
  have h2: "udata ?L 0 = Some (Ptr 0)" by (simp add: sample_defs)
  have h3: "descs ?L 0 = Some (utf8_to_latin1, False)" by (simp add: sample_defs)
  have h4: "luaL_checklstring linux ?L 2 = Inr ([CHR 0xC3, CHR 0xA9, CHR 0xFF], ?L)"
    by (simp add: sample_defs api_defs)
  have h5: "Liconv_loop (sample_lib linux) linux (utf8_to_latin1, False)
              [CHR 0xC3, CHR 0xA9, CHR 0xFF] [] (LUAL_BUFFERSIZE linux) =
            Some (Failed [CHR 0xE9] 84 (utf8_to_latin1, False))"
    by (simp add: binding_defs sample_defs)
  from failure_returns_output_not_handle[OF h1 h2 h3 h4 h5] show ?thesis .
qed

text \<open>
  Claim C3: convert on a closed handle (the descriptor is \<open>NULL\<close>) returns at once
  \<open>nil\<close> and the message \<open>invalid iconv handle\<close>, with no output and no error code;
  a failure of the library returns four values, the last being the code.
\<close>

theorem closed_handle_error:
  "Liconv_convert lib p L NULL inbuf =
     Some (Inr (2, lua_pushstring ''invalid iconv handle'' (lua_pushnil L))) \<and>
   map_option returned (Liconv_convert lib p L NULL inbuf) =
     Some (Inr [LNil, LString ''invalid iconv handle'']) \<and>
   (\<forall>k d B e d'. descs L k = Some d \<and>
        Liconv_loop lib p d inbuf [] (LUAL_BUFFERSIZE p) = Some (Failed B e d') \<longrightarrow>
      map_option returned (Liconv_convert lib p L (Ptr k) inbuf) =
        Some (Inr [LNil, LString (strerror p e), LString B, LNumber e]))"
  by (simp add: Liconv_convert_def)

theorem closed_handle_error_witness:
  "map_option returned (Liconv_convert (sample_lib linux) linux
      (closed_handle [LUserdata 0, LString ''abc'']) NULL ''abc'') =
     Some (Inr [LNil, LString ''invalid iconv handle'']) \<and>
   map_option returned (Liconv_convert (sample_lib linux) linux
      (one_handle (utf8_to_latin1, False) [LUserdata 0, LString [CHR 0xFF]]) (Ptr 0) [CHR 0xFF]) =
     Some (Inr [LNil, LString (strerror linux 84), LString [], LNumber 84])"
proof -
  let ?L = "one_handle (utf8_to_latin1, False) [LUserdata 0, LString [CHR 0xFF]]"
  have h1: "descs ?L 0 = Some (utf8_to_latin1, False)" by (simp add: sample_defs)
  have h2: "Liconv_loop (sample_lib linux) linux (utf8_to_latin1, False) [CHR 0xFF] []
              (LUAL_BUFFERSIZE linux) = Some (Failed [] 84 (utf8_to_latin1, False))"
    by (simp add: binding_defs sample_defs)
  from closed_handle_error[of "sample_lib linux" linux "closed_handle [LUserdata 0, LString ''abc'']" "''abc''"]
  have "map_option returned (Liconv_convert (sample_lib linux) linux
      (closed_handle [LUserdata 0, LString ''abc'']) NULL ''abc'') =
     Some (Inr [LNil, LString ''invalid iconv handle''])" by blast
  moreover from closed_handle_error[of "sample_lib linux" linux ?L "[CHR 0xFF]"] h1 h2
  have "map_option returned (Liconv_convert (sample_lib linux) linux ?L (Ptr 0) [CHR 0xFF]) =
     Some (Inr [LNil, LString (strerror linux 84), LString [], LNumber 84])" by blast
  ultimately show ?thesis by simp
qed

text \<open>
  Claim C4: when a conversion fails with an error of the library, the output converted
  before the point of failure, the last chunk included, is returned with the message
  and the error code. Over a library that follows iconv(3) the third value returned is
  all that one call of the primitive writes before it stops at the error, when its
  buffer is large enough not to fill up.
\<close>

theorem partial_output_returned:
  assumes "distinct_errno p" and "descs L k = Some (c, st)"
  shows "(\<forall>L'. Liconv_convert (posix_lib p reg) p L (Ptr k) inbuf = Some (Inr (4, L')) \<longrightarrow>
            (\<exists>e w. results 4 L' = [LNil, LString (strerror p e), LString w, LNumber e] \<and>
               (\<forall>room. length w \<le> room \<longrightarrow>
                  outcome (oneshot (posix_lib p reg) (c, st) inbuf room) = Inl e \<and>
                  written (oneshot (posix_lib p reg) (c, st) inbuf room) = w))) \<and>
         (chars_fit c (LUAL_BUFFERSIZE p) \<longrightarrow>
            (\<forall>room e. outcome (oneshot (posix_lib p reg) (c, st) inbuf room) = Inl e \<and>
                 e \<noteq> E2BIG p \<longrightarrow>
               map_option returned (Liconv_convert (posix_lib p reg) p L (Ptr k) inbuf) =
                 Some (Inr [LNil, LString (strerror p e),
                            LString (written (oneshot (posix_lib p reg) (c, st) inbuf room)),
                            LNumber e])))"
proof -
  let ?lib = "posix_lib p reg"
  have failed: "\<exists>e w. results 4 L' = [LNil, LString (strerror p e), LString w, LNumber e] \<and>
               (\<forall>room. length w \<le> room \<longrightarrow>
                  outcome (oneshot ?lib (c, st) inbuf room) = Inl e \<and>
                  written (oneshot ?lib (c, st) inbuf room) = w)"
    if a: "Liconv_convert ?lib p L (Ptr k) inbuf = Some (Inr (4, L'))" for L'
  proof -
    from convert_cases[OF assms(2) a] obtain B e d' where
      loop: "Liconv_loop ?lib p (c, st) inbuf [] (LUAL_BUFFERSIZE p) = Some (Failed B e d')"
      by auto
    from convert_failed[OF assms(2) loop] a
    have res: "results 4 L' = [LNil, LString (strerror p e), LString B, LNumber e]" by auto
    from Liconv_loop_posix_result[OF loop refl assms(1)]
    have "Failed B e d' = loop_spec [] (convert_all p (c, st) inbuf)" .
    then obtain d'' where ca: "convert_all p (c, st) inbuf = (B, d'', Some e)"
      by (cases "convert_all p (c, st) inbuf") (auto simp: loop_spec_def split: option.splits)
    have "outcome (oneshot ?lib (c, st) inbuf room) = Inl e \<and>
          written (oneshot ?lib (c, st) inbuf room) = B" if "length B \<le> room" for room
      using oneshot_enough_room[OF assms(1) ca that, of reg] by (auto split: sum.splits)
    with res show ?thesis by blast
  qed
  have total: "map_option returned (Liconv_convert ?lib p L (Ptr k) inbuf) =
                 Some (Inr [LNil, LString (strerror p e),
                            LString (written (oneshot ?lib (c, st) inbuf room)), LNumber e])"
    if fit: "chars_fit c (LUAL_BUFFERSIZE p)"
      and o: "outcome (oneshot ?lib (c, st) inbuf room) = Inl e" and e: "e \<noteq> E2BIG p"
    for room e
  proof -
    from o have bad: "outcome (posix_iconv p (c, st) inbuf room) = Inl e"
      by (simp add: oneshot_def)
    with e have "outcome (posix_iconv p (c, st) inbuf room) \<noteq> Inl (E2BIG p)" by simp
    from convert_posix[OF assms(1) fit assms(2) this, of reg] bad
    have "Liconv_loop ?lib p (c, st) inbuf [] (LUAL_BUFFERSIZE p) =
            Some (Failed (written (posix_iconv p (c, st) inbuf room)) e
                    (newcd (posix_iconv p (c, st) inbuf room)))" by simp
    from convert_failed[OF assms(2) this] show ?thesis by (simp add: oneshot_def)
  qed
  from failed total show ?thesis by blast
qed

theorem partial_output_returned_witness:
  "map_option returned (Liconv_convert (sample_lib linux) linux
      (one_handle (utf8_to_latin1, False) [])
      (Ptr 0) [CHR ''n'', CHR 0xC3, CHR 0xA9, CHR 0xE2, CHR 0x82]) =
     Some (Inr [LNil, LString ''Invalid argument'', LString [CHR ''n'', CHR 0xE9], LNumber 22])"
proof -
  let ?L = "one_handle (utf8_to_latin1, False) [] :: bool descriptor lua_State"
  let ?s = "[CHR ''n'', CHR 0xC3, CHR 0xA9, CHR 0xE2, CHR 0x82]"
  let ?lib = "posix_lib linux (sample_registry linux)"
  have h1: "distinct_errno linux" by (rule distinct_errno_linux)
  have h2: "chars_fit utf8_to_latin1 (LUAL_BUFFERSIZE linux)"
    by (rule utf8_to_latin1_fits) (simp add: linux_def)
  have h3: "descs ?L 0 = Some (utf8_to_latin1, False)" by (simp add: sample_defs)
  have h4: "outcome (oneshot ?lib (utf8_to_latin1, False) ?s 16) = Inl 22 \<and> (22::int) \<noteq> E2BIG linux"
    by (simp add: oneshot_def sample_defs Let_def)
  have w: "written (oneshot ?lib (utf8_to_latin1, False) ?s 16) = [CHR ''n'', CHR 0xE9]"
    by (simp add: oneshot_def sample_defs Let_def)
  from partial_output_returned[OF h1 h3, of "sample_registry linux" ?s] h2 h4
  have "map_option returned (Liconv_convert ?lib linux ?L (Ptr 0) ?s) =
     Some (Inr [LNil, LString (strerror linux 22),
                LString (written (oneshot ?lib (utf8_to_latin1, False) ?s 16)), LNumber 22])"
    by blast
  with w show ?thesis by (simp add: sample_lib_def linux_def)
qed

text \<open>
  Claim C5: once a handle is closed, closing it again does nothing and returns no error,
  and convert on it, through the method \<open>iconv\<close> or through a converter closure bound
  to the same userdata, returns the error of the closed handle and leaves the
  descriptors of the library as they are.
\<close>

theorem closed_handle_is_inert:
  assumes "udata L a = Some NULL"
  shows "(index2value L 1 = Some (LUserdata a) \<longrightarrow> Liconv_close lib L = Inr (0, L)) \<and>
         (index2value L 1 = Some (LUserdata a) \<and> luaL_checklstring p L 2 = Inr (inbuf, L1) \<longrightarrow>
            Liconv lib p L =
              Some (Inr (2, lua_pushstring ''invalid iconv handle'' (lua_pushnil L1)))) \<and>
         (luaL_checklstring p L 1 = Inr (inbuf, L1) \<longrightarrow>
            Liconv_closure lib p [LUserdata a] L =
              Some (Inr (2, lua_pushstring ''invalid iconv handle'' (lua_pushnil L1))))"
  using assms checkudata_handle[of L 1 a NULL]
  by (auto simp: Liconv_close_def Liconv_handle Liconv_closure_handle Liconv_convert_def)

theorem closed_handle_is_inert_witness:
  "Liconv_close (sample_lib linux) (closed_handle [LUserdata 0]) =
     Inr (0, closed_handle [LUserdata 0]) \<and>
   map_option returned (Liconv (sample_lib linux) linux (closed_handle [LUserdata 0, LString ''abc''])) =
     Some (Inr [LNil, LString ''invalid iconv handle'']) \<and>
   map_option returned (Liconv_closure (sample_lib linux) linux [LUserdata 0] (closed_handle [LString ''abc''])) =
     Some (Inr [LNil, LString ''invalid iconv handle''])"
proof -
  let ?lib = "sample_lib linux"
  have c: "\<And>args. udata (closed_handle args :: bool descriptor lua_State) 0 = Some NULL"
    by (simp add: closed_handle_def)
  have i1: "index2value (closed_handle [LUserdata 0] :: bool descriptor lua_State) 1 = Some (LUserdata 0)"
    by (simp add: closed_handle_def index2value_def)
  have i2: "index2value (closed_handle [LUserdata 0, LString ''abc''] :: bool descriptor lua_State) 1 = Some (LUserdata 0)"
    by (simp add: closed_handle_def index2value_def)
  have s2: "luaL_checklstring linux (closed_handle [LUserdata 0, LString ''abc''] :: bool descriptor lua_State) 2 =
      Inr (''abc'', closed_handle [LUserdata 0, LString ''abc''])"
    by (simp add: closed_handle_def index2value_def luaL_checklstring_def)
  have s1: "luaL_checklstring linux (closed_handle [LString ''abc''] :: bool descriptor lua_State) 1 =
      Inr (''abc'', closed_handle [LString ''abc''])"
    by (simp add: closed_handle_def index2value_def luaL_checklstring_def)
  from closed_handle_is_inert[OF c, of "[LUserdata 0]" ?lib] i1
  have "Liconv_close ?lib (closed_handle [LUserdata 0]) = Inr (0, closed_handle [LUserdata 0])"
    by blast
  moreover from closed_handle_is_inert[OF c, of "[LUserdata 0, LString ''abc'']" ?lib linux] i2 s2
  have "Liconv ?lib linux (closed_handle [LUserdata 0, LString ''abc'']) =
     Some (Inr (2, lua_pushstring ''invalid iconv handle'' (lua_pushnil (closed_handle [LUserdata 0, LString ''abc'']))))"
    by blast
  moreover from closed_handle_is_inert[OF c, of "[LString ''abc'']" ?lib linux] s1
  have "Liconv_closure ?lib linux [LUserdata 0] (closed_handle [LString ''abc'']) =
     Some (Inr (2, lua_pushstring ''invalid iconv handle'' (lua_pushnil (closed_handle [LString ''abc'']))))"
    by blast
  ultimately show ?thesis by simp
qed

text \<open>
  Claim C6: a full chunk (\<open>E2BIG\<close>) is not an error: the loop keeps what was written,
  takes a fresh chunk and goes on with the rest of the input. So for an input whose
  conversion succeeds the output of the loop is the output of one call of the
  primitive with a buffer large enough, whatever the size of the chunk; and when the
  loop succeeds, one call with any buffer that holds the output succeeds with the same
  output.
\<close>

theorem chunking_is_invisible:
  assumes "distinct_errno p" and "descs L k = Some (c, st)"
  shows "(\<forall>d inp B obleft. outcome (iconv (posix_lib p reg) d inp obleft) = Inl (E2BIG p) \<longrightarrow>
            Liconv_loop (posix_lib p reg) p d inp B obleft =
            Liconv_loop (posix_lib p reg) p
              (newcd (iconv (posix_lib p reg) d inp obleft))
              (inrest (iconv (posix_lib p reg) d inp obleft))
              (B @ written (iconv (posix_lib p reg) d inp obleft)) (LUAL_BUFFERSIZE p)) \<and>
         (\<forall>out room. map_option returned (Liconv_convert (posix_lib p reg) p L (Ptr k) inbuf) =
              Some (Inr [LString out]) \<and> length out \<le> room \<longrightarrow>
            (\<exists>n. outcome (oneshot (posix_lib p reg) (c, st) inbuf room) = Inr n) \<and>
            written (oneshot (posix_lib p reg) (c, st) inbuf room) = out) \<and>
         (chars_fit c (LUAL_BUFFERSIZE p) \<longrightarrow>
            (\<forall>room n. outcome (oneshot (posix_lib p reg) (c, st) inbuf room) = Inr n \<longrightarrow>
               map_option returned (Liconv_convert (posix_lib p reg) p L (Ptr k) inbuf) =
                 Some (Inr [LString (written (oneshot (posix_lib p reg) (c, st) inbuf room))])))"
proof -
  let ?lib = "posix_lib p reg"
  let ?conv = "map_option returned (Liconv_convert ?lib p L (Ptr k) inbuf)"
  have retry: "Liconv_loop ?lib p d inp B obleft =
            Liconv_loop ?lib p (newcd (iconv ?lib d inp obleft)) (inrest (iconv ?lib d inp obleft))
              (B @ written (iconv ?lib d inp obleft)) (LUAL_BUFFERSIZE p)"
    if "outcome (iconv ?lib d inp obleft) = Inl (E2BIG p)" for d inp B obleft
    using that by (rule Liconv_loop_E2BIG)
  have same: "?conv = Some (Inr [LString (written (oneshot ?lib (c, st) inbuf room))])"
    if fit: "chars_fit c (LUAL_BUFFERSIZE p)"
      and "outcome (oneshot ?lib (c, st) inbuf room) = Inr n" for room n
  proof -
    from that have ok: "outcome (posix_iconv p (c, st) inbuf room) = Inr n"
      by (simp add: oneshot_def)
    then have "outcome (posix_iconv p (c, st) inbuf room) \<noteq> Inl (E2BIG p)" by simp
    from convert_posix[OF assms(1) fit assms(2) this, of reg] ok
    have "Liconv_loop ?lib p (c, st) inbuf [] (LUAL_BUFFERSIZE p) =
            Some (Done (written (posix_iconv p (c, st) inbuf room))
                    (newcd (posix_iconv p (c, st) inbuf room)))" by simp
    from convert_done[OF assms(2) this] show ?thesis by (simp add: oneshot_def)
  qed
  have converse: "(\<exists>n. outcome (oneshot ?lib (c, st) inbuf room) = Inr n) \<and>
            written (oneshot ?lib (c, st) inbuf room) = out"
    if a: "?conv = Some (Inr [LString out])" and r: "length out \<le> room" for out room
  proof -
    from a assms(2) obtain B d' where
      loop: "Liconv_loop ?lib p (c, st) inbuf [] (LUAL_BUFFERSIZE p) = Some (Done B d')"
      and B: "B = out"
      by (auto simp: Liconv_convert_def split: option.splits loop_exit.splits)
    from Liconv_loop_posix_result[OF loop refl assms(1)]
    have "Done B d' = loop_spec [] (convert_all p (c, st) inbuf)" .
    then obtain d'' where ca: "convert_all p (c, st) inbuf = (out, d'', None)"
      using B by (cases "convert_all p (c, st) inbuf")
        (auto simp: loop_spec_def split: option.splits)
    from oneshot_enough_room[OF assms(1) ca r, of reg] show ?thesis
      by (auto split: sum.splits)
  qed
  from retry same converse show ?thesis by blast
qed

theorem chunking_is_invisible_witness:
  "outcome (iconv (sample_lib small_chunks) (latin1_to_utf16, False) ''abcde'' 8) =
     Inl (E2BIG small_chunks) \<and>
   map_option returned (Liconv_convert (sample_lib small_chunks) small_chunks
      (one_handle (latin1_to_utf16, False) []) (Ptr 0) ''abcde'') =
     Some (Inr [LString [CHR 0xFF, CHR 0xFE, CHR ''a'', CHR 0x00, CHR ''b'', CHR 0x00,
                         CHR ''c'', CHR 0x00, CHR ''d'', CHR 0x00, CHR ''e'', CHR 0x00]])"
proof -
  let ?L = "one_handle (latin1_to_utf16, False) [] :: bool descriptor lua_State"
  let ?lib = "posix_lib small_chunks (sample_registry small_chunks)"
  have h1: "distinct_errno small_chunks" by (rule distinct_errno_linux)
  have h2: "chars_fit latin1_to_utf16 (LUAL_BUFFERSIZE small_chunks)"
    by (rule latin1_to_utf16_fits) (simp add: small_chunks_def)
  have h3: "descs ?L 0 = Some (latin1_to_utf16, False)" by (simp add: sample_defs)
  have h4: "outcome (oneshot ?lib (latin1_to_utf16, False) ''abcde'' 4096) = Inr 0"
    by (simp add: oneshot_def sample_defs Let_def)
  have w: "written (oneshot ?lib (latin1_to_utf16, False) ''abcde'' 4096) =
     [CHR 0xFF, CHR 0xFE, CHR ''a'', CHR 0x00, CHR ''b'', CHR 0x00,
      CHR ''c'', CHR 0x00, CHR ''d'', CHR 0x00, CHR ''e'', CHR 0x00]"
    by (simp add: oneshot_def sample_defs Let_def)
  have full: "outcome (iconv (sample_lib small_chunks) (latin1_to_utf16, False) ''abcde'' 8) =
     Inl (E2BIG small_chunks)"
    by (simp add: sample_defs Let_def)
  from chunking_is_invisible[OF h1 h3, of "sample_registry small_chunks" "''abcde''"] h2 h4
  have "map_option returned (Liconv_convert ?lib small_chunks ?L (Ptr 0) ''abcde'') =
     Some (Inr [LString (written (oneshot ?lib (latin1_to_utf16, False) ''abcde'' 4096))])"
    by blast
  with w full show ?thesis by (simp add: sample_lib_def)
qed

text \<open>
  Claim C7: after a successful loop, and only then, the descriptor is reset. So after a
  successful conversion the descriptor is in the state \<open>iconv_open\<close> gives, and any
  further conversion on the handle returns what it returns on a handle just opened for
  the same pair. After a failure the descriptor is not reset: it is in the shift state
  in which the conversion of the input stopped at the error, the state one call of the
  primitive with a buffer large enough leaves.
\<close>

theorem reset_only_after_success:
  assumes "iconv_open (posix_lib p reg) tocode fromcode = Inr d0"
    and "descs L k = Some d" and "fst d = fst d0"
  shows "(\<forall>L1. Liconv_convert (posix_lib p reg) p L (Ptr k) s1 = Some (Inr (1, L1)) \<longrightarrow>
            descs L1 k = Some d0 \<and>
            (\<forall>M j s2. descs M j = Some d0 \<longrightarrow>
               map_option returned (Liconv_convert (posix_lib p reg) p L1 (Ptr k) s2) =
               map_option returned (Liconv_convert (posix_lib p reg) p M (Ptr j) s2))) \<and>
         (\<forall>L1. Liconv_convert (posix_lib p reg) p L (Ptr k) s1 = Some (Inr (4, L1)) \<longrightarrow>
            (\<exists>B e d'. Liconv_loop (posix_lib p reg) p d s1 [] (LUAL_BUFFERSIZE p) =
                          Some (Failed B e d') \<and> descs L1 k = Some d')) \<and>
         (distinct_errno p \<longrightarrow>
            (\<forall>L1. Liconv_convert (posix_lib p reg) p L (Ptr k) s1 = Some (Inr (4, L1)) \<longrightarrow>
               descs L1 k = Some (fst (snd (convert_all p d s1))) \<and>
               (\<forall>room. length (fst (convert_all p d s1)) \<le> room \<longrightarrow>
                  descs L1 k = Some (newcd (oneshot (posix_lib p reg) d s1 room)))))"
proof -
  let ?lib = "posix_lib p reg"
  have success: "descs L1 k = Some d0 \<and>
            (\<forall>M j s2. descs M j = Some d0 \<longrightarrow>
               map_option returned (Liconv_convert ?lib p L1 (Ptr k) s2) =
               map_option returned (Liconv_convert ?lib p M (Ptr j) s2))"
    if ok: "Liconv_convert ?lib p L (Ptr k) s1 = Some (Inr (1, L1))" for L1
  proof -
    from convert_cases[OF assms(2) ok] obtain B d' where
      loop: "Liconv_loop ?lib p d s1 [] (LUAL_BUFFERSIZE p) = Some (Done B d')"
      and L1: "descs L1 k = Some (iconv_reset ?lib d')" by auto
    from Liconv_loop_codec[OF loop refl] have "fst d' = fst d" by simp
    moreover from assms(1) have "d0 = (fst d0, initial (fst d0))"
      by (auto simp: posix_lib_def split: sum.splits)
    ultimately have "iconv_reset ?lib d' = d0"
      using assms(3) by (cases d') (simp add: posix_lib_def)
    with L1 have fresh: "descs L1 k = Some d0" by simp
    have "map_option returned (Liconv_convert ?lib p L1 (Ptr k) s2) =
          map_option returned (Liconv_convert ?lib p M (Ptr j) s2)"
      if "descs M j = Some d0" for M :: "('a codec \<times> 'a) lua_State" and j s2
    proof -
      from that fresh have "descs L1 k = descs M j" by simp
      then show ?thesis by (rule convert_returned_cong)
    qed
    with fresh show ?thesis by blast
  qed
  have failure: "\<exists>B e d'. Liconv_loop ?lib p d s1 [] (LUAL_BUFFERSIZE p) =
                          Some (Failed B e d') \<and> descs L1 k = Some d'"
    if "Liconv_convert ?lib p L (Ptr k) s1 = Some (Inr (4, L1))" for L1
    using convert_cases[OF assms(2) that] by auto
  have left: "descs L1 k = Some (fst (snd (convert_all p d s1))) \<and>
               (\<forall>room. length (fst (convert_all p d s1)) \<le> room \<longrightarrow>
                  descs L1 k = Some (newcd (oneshot ?lib d s1 room)))"
    if dis: "distinct_errno p"
      and bad: "Liconv_convert ?lib p L (Ptr k) s1 = Some (Inr (4, L1))" for L1
  proof -
    from failure[OF bad] obtain B e d' where
      loop: "Liconv_loop ?lib p d s1 [] (LUAL_BUFFERSIZE p) = Some (Failed B e d')"
      and L1: "descs L1 k = Some d'" by blast
    from Liconv_loop_posix_result[OF loop refl dis]
    have spec: "Failed B e d' = loop_spec [] (convert_all p d s1)" .
    then have d': "d' = fst (snd (convert_all p d s1))"
      by (cases "convert_all p d s1") (auto simp: loop_spec_def split: option.splits)
    have "newcd (oneshot ?lib d s1 room) = d'"
      if r: "length (fst (convert_all p d s1)) \<le> room" for room
    proof -
      from posix_iconv_enough_room[OF dis r]
      have "outcome (posix_iconv p d s1 room) \<noteq> Inl (E2BIG p)" .
      from posix_iconv_final[OF this] d' show ?thesis by (simp add: oneshot_def)
    qed
    with L1 d' show ?thesis by simp
  qed
  from success failure left show ?thesis by blast
qed

theorem reset_only_after_success_witness:
  "Liconv_convert (sample_lib linux) linux (one_handle (latin1_to_utf16, False) []) (Ptr 0) ''a'' =
     Some (Inr (1, luaL_pushresult [CHR 0xFF, CHR 0xFE, CHR ''a'', CHR 0x00]
                     (one_handle (latin1_to_utf16, False) []))) \<and>
   map_option returned (Liconv_convert (sample_lib linux) linux
      (luaL_pushresult [CHR 0xFF, CHR 0xFE, CHR ''a'', CHR 0x00]
         (one_handle (latin1_to_utf16, False) [])) (Ptr 0) ''b'') =
     Some (Inr [LString [CHR 0xFF, CHR 0xFE, CHR ''b'', CHR 0x00]]) \<and>
   Liconv_convert (sample_lib linux) linux (one_handle (ascii_to_utf16, False) []) (Ptr 0)
       [CHR ''a'', CHR 0xFF] =
     Some (Inr (4, one_handle (ascii_to_utf16, True)
                     [LString [CHR 0xFF, CHR 0xFE, CHR ''a'', CHR 0x00], LNil,
                      LString ''Invalid or incomplete multibyte or wide character'',
                      LString [CHR 0xFF, CHR 0xFE, CHR ''a'', CHR 0x00], LNumber 84])) \<and>
   descs (one_handle (ascii_to_utf16, True)
            [LString [CHR 0xFF, CHR 0xFE, CHR ''a'', CHR 0x00], LNil,
             LString ''Invalid or incomplete multibyte or wide character'',
             LString [CHR 0xFF, CHR 0xFE, CHR ''a'', CHR 0x00], LNumber 84]) 0 =
     Some (fst (snd (convert_all linux (ascii_to_utf16, False) [CHR ''a'', CHR 0xFF]))) \<and>
   fst (snd (convert_all linux (ascii_to_utf16, False) [CHR ''a'', CHR 0xFF])) =
     (ascii_to_utf16, True) \<and>
   map_option returned (Liconv_convert (sample_lib linux) linux
      (one_handle (ascii_to_utf16, True)
         [LString [CHR 0xFF, CHR 0xFE, CHR ''a'', CHR 0x00], LNil,
          LString ''Invalid or incomplete multibyte or wide character'',
          LString [CHR 0xFF, CHR 0xFE, CHR ''a'', CHR 0x00], LNumber 84]) (Ptr 0) ''b'') =
     Some (Inr [LString [CHR ''b'', CHR 0x00]])"
proof -
  let ?lib = "posix_lib linux (sample_registry linux)"
  let ?d0 = "(latin1_to_utf16, False)"
  let ?L = "one_handle ?d0 [] :: bool descriptor lua_State"
  let ?L1 = "luaL_pushresult [CHR 0xFF, CHR 0xFE, CHR ''a'', CHR 0x00] ?L"
  let ?a0 = "(ascii_to_utf16, False)"
  let ?A = "one_handle ?a0 [] :: bool descriptor lua_State"
  let ?A1 = "one_handle (ascii_to_utf16, True)
         [LString [CHR 0xFF, CHR 0xFE, CHR ''a'', CHR 0x00], LNil,
          LString ''Invalid or incomplete multibyte or wide character'',
          LString [CHR 0xFF, CHR 0xFE, CHR ''a'', CHR 0x00], LNumber 84]
          :: bool descriptor lua_State"
  have h1: "iconv_open ?lib ''UTF-16'' ''ISO-8859-1'' = Inr ?d0"
    by (simp add: sample_defs)
  have h2: "descs ?L 0 = Some ?d0" by (simp add: sample_defs)
  have h3: "fst ?d0 = fst ?d0" by simp
  have first: "Liconv_convert ?lib linux ?L (Ptr 0) ''a'' = Some (Inr (1, ?L1))"
    by (simp add: binding_defs sample_defs api_defs)
  have fresh: "map_option returned (Liconv_convert ?lib linux ?L (Ptr 0) ''b'') =
     Some (Inr [LString [CHR 0xFF, CHR 0xFE, CHR ''b'', CHR 0x00]])"
    by (simp add: binding_defs sample_defs api_defs)
  from reset_only_after_success[OF h1 h2 h3, of "''a''"] first h2
  have reuse: "map_option returned (Liconv_convert ?lib linux ?L1 (Ptr 0) ''b'') =
        map_option returned (Liconv_convert ?lib linux ?L (Ptr 0) ''b'')"
    by blast
  have g1: "iconv_open ?lib ''UTF-16'' ''ASCII'' = Inr ?a0"
    by (simp add: sample_defs)
  have g2: "descs ?A 0 = Some ?a0" by (simp add: sample_defs)
  have g3: "fst ?a0 = fst ?a0" by simp
  have dis: "distinct_errno linux" by (rule distinct_errno_linux)
  have failed: "Liconv_convert ?lib linux ?A (Ptr 0) [CHR ''a'', CHR 0xFF] = Some (Inr (4, ?A1))"
    by (simp add: binding_defs sample_defs api_defs)
  from reset_only_after_success[OF g1 g2 g3, of "[CHR ''a'', CHR 0xFF]"] dis failed
  have left: "descs ?A1 0 = Some (fst (snd (convert_all linux ?a0 [CHR ''a'', CHR 0xFF])))"
    by blast
  have state: "fst (snd (convert_all linux ?a0 [CHR ''a'', CHR 0xFF])) = (ascii_to_utf16, True)"
    by (simp add: sample_defs)
  have again: "map_option returned (Liconv_convert ?lib linux ?A1 (Ptr 0) ''b'') =
     Some (Inr [LString [CHR ''b'', CHR 0x00]])"
    by (simp add: binding_defs sample_defs api_defs)
  from first reuse fresh failed left state again show ?thesis
    by (simp add: sample_lib_def)
qed

text \<open>
  Claim C8: \<open>new\<close> rejects an empty encoding name before the library is reached.

  It does not: an empty source name is passed to the library, which takes it for the
  character set of the locale and opens a descriptor.
\<close>

theorem empty_name_reaches_library_counterexample:
  "returned (Liconv_new (sample_lib linux) linux (start [LString ''ISO-8859-1'', LString []])) =
     Inr [LUserdata 0]"
  by (simp add: binding_defs sample_defs api_defs)

text \<open>
  Claim C8, as the code has it: \<open>new\<close> checks only that each of its two arguments is a
  string or a number. The two names, a string as it is, empty or not, and a number in
  its decimal form, are passed to \<open>iconv_open\<close> as C strings, and what \<open>new\<close> returns
  is decided by the library alone.
\<close>

theorem open_passes_names_through:
  "(index2value L 1 = Some (LString tocode) \<and> index2value L 2 = Some (LString fromcode) \<longrightarrow>
      returned (Liconv_new lib p L) =
        (case iconv_open lib (c_str tocode) (c_str fromcode) of
           Inl errno \<Rightarrow> Inr [LNil, LString (strerror p errno)]
         | Inr d \<Rightarrow> Inr [LUserdata (next_udata L)])) \<and>
   (lua_isstring L 1 \<and> lua_isstring L 2 \<and>
    index2value L 1 = Some v1 \<and> index2value L 2 = Some v2 \<longrightarrow>
      returned (Liconv_new lib p L) =
        (case iconv_open lib (c_str (name_of p v1)) (c_str (name_of p v2)) of
           Inl errno \<Rightarrow> Inr [LNil, LString (strerror p errno)]
         | Inr d \<Rightarrow> Inr [LUserdata (next_udata L)])) \<and>
   (luaL_checklstring p L 1 = Inr (t, L1) \<and> luaL_checklstring p L1 2 = Inr (f, L2) \<longrightarrow>
      returned (Liconv_new lib p L) =
        (case iconv_open lib (c_str t) (c_str f) of
           Inl errno \<Rightarrow> Inr [LNil, LString (strerror p errno)]
         | Inr d \<Rightarrow> Inr [LUserdata (next_udata L)])) \<and>
   (\<not> lua_isstring L 1 \<longrightarrow> Liconv_new lib p L = Inl (BadArgument 1 ''string'')) \<and>
   (lua_isstring L 1 \<and> \<not> lua_isstring L 2 \<longrightarrow>
      Liconv_new lib p L = Inl (BadArgument 2 ''string'')) \<and>
   (lua_isstring L 1 \<and> lua_isstring L 2 \<longrightarrow> (\<exists>n L'. Liconv_new lib p L = Inr (n, L')))"
proof -
  have strings: "returned (Liconv_new lib p L) =
        (case iconv_open lib (c_str tocode) (c_str fromcode) of
           Inl errno \<Rightarrow> Inr [LNil, LString (strerror p errno)]
         | Inr d \<Rightarrow> Inr [LUserdata (next_udata L)])"
    if "index2value L 1 = Some (LString tocode)" and "index2value L 2 = Some (LString fromcode)"
  proof -
    from that have "luaL_checklstring p L 1 = Inr (tocode, L)"
      "luaL_checklstring p L 2 = Inr (fromcode, L)"
      using checklstring_string[of L 1] checklstring_string[of L 2] by simp_all
    then show ?thesis by (rule Liconv_new_names)
  qed
  have by_value: "returned (Liconv_new lib p L) =
        (case iconv_open lib (c_str (name_of p v1)) (c_str (name_of p v2)) of
           Inl errno \<Rightarrow> Inr [LNil, LString (strerror p errno)]
         | Inr d \<Rightarrow> Inr [LUserdata (next_udata L)])"
    if s1: "lua_isstring L 1" and s2: "lua_isstring L 2"
      and i1: "index2value L 1 = Some v1" and i2: "index2value L 2 = Some v2"
  proof -
    from checklstring_name[of L 1 v1 p] s1 i1 obtain M1 where
      c1: "luaL_checklstring p L 1 = Inr (name_of p v1, M1)" by auto
    have same: "index2value M1 (int 2) = index2value L (int 2)"
      by (rule checklstring_index[OF c1]) simp_all
    with s2 i2 have "lua_isstring M1 (int 2)" "index2value M1 (int 2) = Some v2"
      by (simp_all add: lua_isstring_def)
    from checklstring_name[OF this, of p] obtain M2 where
      c2: "luaL_checklstring p M1 2 = Inr (name_of p v2, M2)" by auto
    from c1 c2 show ?thesis by (rule Liconv_new_names)
  qed
  have checked: "returned (Liconv_new lib p L) =
        (case iconv_open lib (c_str t) (c_str f) of
           Inl errno \<Rightarrow> Inr [LNil, LString (strerror p errno)]
         | Inr d \<Rightarrow> Inr [LUserdata (next_udata L)])"
    if "luaL_checklstring p L 1 = Inr (t, L1)" and "luaL_checklstring p L1 2 = Inr (f, L2)"
    using that by (rule Liconv_new_names)
  have first: "Liconv_new lib p L = Inl (BadArgument 1 ''string'')" if "\<not> lua_isstring L 1"
    using that checklstring_rejects[of L 1 p] by (simp add: Liconv_new_def)
  have second: "Liconv_new lib p L = Inl (BadArgument 2 ''string'')"
    if s1: "lua_isstring L 1" and s2: "\<not> lua_isstring L 2"
  proof -
    from s1 obtain s M1 where c1: "luaL_checklstring p L 1 = Inr (s, M1)"
      using checklstring_accepts[of L 1 p] by auto
    have "index2value M1 (int 2) = index2value L (int 2)"
      by (rule checklstring_index[OF c1]) simp_all
    with s2 have "\<not> lua_isstring M1 (int 2)" by (simp add: lua_isstring_def)
    from checklstring_rejects[OF this, of p] c1 show ?thesis
      by (simp add: Liconv_new_def)
  qed
  have accepted: "\<exists>n L'. Liconv_new lib p L = Inr (n, L')"
    if s1: "lua_isstring L 1" and s2: "lua_isstring L 2"
  proof -
    from s1 obtain s M1 where c1: "luaL_checklstring p L 1 = Inr (s, M1)"
      using checklstring_accepts[of L 1 p] by auto
    have "index2value M1 (int 2) = index2value L (int 2)"
      by (rule checklstring_index[OF c1]) simp_all
    with s2 have "lua_isstring M1 (int 2)" by (simp add: lua_isstring_def)
    then obtain u M2 where c2: "luaL_checklstring p M1 2 = Inr (u, M2)"
      using checklstring_accepts[of M1 2 p] by auto
    from c1 c2 show ?thesis by (simp add: Liconv_new_def split: sum.splits)
  qed
  from strings by_value checked first second accepted show ?thesis by blast
qed

theorem open_passes_names_through_witness:
  "returned (Liconv_new (sample_lib linux) linux (start [LString ''UTF-16'', LString ''ASCII''])) =
     Inr [LUserdata 0] \<and>
   returned (Liconv_new (sample_lib linux) linux (start [LString ''ISO-8859-1'', LString []])) =
     Inr [LUserdata 0] \<and>
   returned (Liconv_new (sample_lib linux) linux (start [LString ''ISO-8859-1'', LNumber 8859])) =
     Inr [LNil, LString ''Invalid argument''] \<and>
   name_of linux (LNumber 8859) = ''8859'' \<and>
   Liconv_new (sample_lib linux) linux (start [LString ''UTF-8'']) =
     Inl (BadArgument 2 ''string'') \<and>
   Liconv_new (sample_lib linux) linux (start [LNil, LString ''UTF-8'']) =
     Inl (BadArgument 1 ''string'')"
proof -
  let ?lib = "sample_lib linux"
  let ?A = "start [LString ''UTF-16'', LString ''ASCII''] :: bool descriptor lua_State"
  let ?N = "start [LString ''ISO-8859-1'', LNumber 8859] :: bool descriptor lua_State"
  let ?E = "start [LString ''ISO-8859-1'', LString []] :: bool descriptor lua_State"
  let ?B = "start [LString ''UTF-8''] :: bool descriptor lua_State"
  let ?C = "start [LNil, LString ''UTF-8''] :: bool descriptor lua_State"
  have a: "index2value ?A 1 = Some (LString ''UTF-16'') \<and>
           index2value ?A 2 = Some (LString ''ASCII'')"
    by (simp add: start_def index2value_def)
  have lib: "iconv_open ?lib (c_str ''UTF-16'') (c_str ''ASCII'') = Inr (ascii_to_utf16, False)"
    by (simp add: sample_defs c_str_def)
  have n: "lua_isstring ?N 1 \<and> lua_isstring ?N 2 \<and>
           index2value ?N 1 = Some (LString ''ISO-8859-1'') \<and>
           index2value ?N 2 = Some (LNumber 8859)"
    by (simp add: start_def index2value_def lua_isstring_def)
  have name: "name_of linux (LNumber 8859) = ''8859''"
    by (simp add: name_of_def linux_def char_of_def bit_0)
  have name1: "name_of linux (LString ''ISO-8859-1'') = ''ISO-8859-1''"
    by (simp add: name_of_def)
  have unknown: "iconv_open ?lib (c_str ''ISO-8859-1'') (c_str ''8859'') = Inl 22"
    by (simp add: sample_defs c_str_def)
  have b: "lua_isstring ?B 1 \<and> \<not> lua_isstring ?B 2"
    by (simp add: start_def index2value_def lua_isstring_def)
  have c: "\<not> lua_isstring ?C 1"
    by (simp add: start_def index2value_def lua_isstring_def)
  from open_passes_names_through[of ?A "''UTF-16''" "''ASCII''" ?lib linux] a
  have "returned (Liconv_new ?lib linux ?A) =
        (case iconv_open ?lib (c_str ''UTF-16'') (c_str ''ASCII'') of
           Inl errno \<Rightarrow> Inr [LNil, LString (strerror linux errno)]
         | Inr d \<Rightarrow> Inr [LUserdata (next_udata ?A)])" by blast
  with lib have r1: "returned (Liconv_new ?lib linux ?A) = Inr [LUserdata 0]"
    by (simp add: start_def)
  have e: "index2value ?E 1 = Some (LString ''ISO-8859-1'') \<and>
           index2value ?E 2 = Some (LString [])"
    by (simp add: start_def index2value_def)
  have empty: "iconv_open ?lib (c_str ''ISO-8859-1'') (c_str []) = Inr (utf8_to_latin1, False)"
    by (simp add: sample_defs c_str_def)
  from open_passes_names_through[of ?E "''ISO-8859-1''" "[]" ?lib linux] e
  have "returned (Liconv_new ?lib linux ?E) =
        (case iconv_open ?lib (c_str ''ISO-8859-1'') (c_str []) of
           Inl errno \<Rightarrow> Inr [LNil, LString (strerror linux errno)]
         | Inr d \<Rightarrow> Inr [LUserdata (next_udata ?E)])" by blast
  with empty have r0: "returned (Liconv_new ?lib linux ?E) = Inr [LUserdata 0]"
    by (simp add: start_def)
  from open_passes_names_through[of ?N _ _ ?lib linux
      "LString ''ISO-8859-1''" "LNumber 8859"] n
  have "returned (Liconv_new ?lib linux ?N) =
        (case iconv_open ?lib (c_str (name_of linux (LString ''ISO-8859-1'')))
                (c_str (name_of linux (LNumber 8859))) of
           Inl errno \<Rightarrow> Inr [LNil, LString (strerror linux errno)]
         | Inr d \<Rightarrow> Inr [LUserdata (next_udata ?N)])" by blast
  with name name1 unknown have r2: "returned (Liconv_new ?lib linux ?N) =
     Inr [LNil, LString ''Invalid argument'']"
    by (simp add: linux_def)
  from open_passes_names_through[of ?B _ _ ?lib linux] b
  have r3: "Liconv_new ?lib linux ?B = Inl (BadArgument 2 ''string'')" by blast
  from open_passes_names_through[of ?C _ _ ?lib linux] c
  have r4: "Liconv_new ?lib linux ?C = Inl (BadArgument 1 ''string'')" by blast
  from r1 r0 r2 name r3 r4 show ?thesis by simp
qed

text \<open>
  Claim C9: \<open>delete\<close> on a handle never raises and returns nothing. When the library
  fails to release the descriptor the state is unchanged, the handle is not marked as
  closed, and a later call on this state with a library that releases the descriptor
  closes the handle.
\<close>

theorem close_failure_keeps_handle:
  assumes "index2value L 1 = Some (LUserdata a)" and "udata L a = Some cd"
    and "\<forall>k. cd = Ptr k \<longrightarrow> descs L k \<noteq> None"
  shows "(\<exists>L'. Liconv_close lib L = Inr (0, L')) \<and>
         (\<forall>k d. cd = Ptr k \<and> descs L k = Some d \<and> iconv_close lib d \<noteq> 0 \<longrightarrow>
            Liconv_close lib L = Inr (0, L) \<and>
            (\<forall>lib'. iconv_close lib' d = 0 \<longrightarrow>
               Liconv_close lib' L =
                 Inr (0, L\<lparr>udata := (udata L)(a \<mapsto> NULL), descs := (descs L)(k := None)\<rparr>)))"
  using assms checkudata_handle[of L 1 a cd]
  by (cases cd) (auto simp: Liconv_close_def)

theorem close_failure_keeps_handle_witness:
  "Liconv_close (failing_close (sample_lib linux)) (one_handle (utf8_to_latin1, False) [LUserdata 0]) =
     Inr (0, one_handle (utf8_to_latin1, False) [LUserdata 0]) \<and>
   Liconv_close (sample_lib linux) (one_handle (utf8_to_latin1, False) [LUserdata 0]) =
     Inr (0, closed_handle [LUserdata 0])"
proof -
  let ?L = "one_handle (utf8_to_latin1, False) [LUserdata 0] :: bool descriptor lua_State"
  have h1: "index2value ?L 1 = Some (LUserdata 0)" by (simp add: one_handle_def index2value_def)
  have h2: "udata ?L 0 = Some (Ptr 0)" by (simp add: one_handle_def)
  have h3: "\<forall>k. Ptr 0 = Ptr k \<longrightarrow> descs ?L k \<noteq> None" by (simp add: one_handle_def)
  have d: "descs ?L 0 = Some (utf8_to_latin1, False)" by (simp add: one_handle_def)
  have f: "iconv_close (failing_close (sample_lib linux)) (utf8_to_latin1, False) \<noteq> 0"
    by (simp add: failing_close_def)
  have g: "iconv_close (sample_lib linux) (utf8_to_latin1, False) = 0"
    by (simp add: sample_lib_def posix_lib_def)
  have e: "?L\<lparr>udata := (udata ?L)(0 \<mapsto> NULL), descs := (descs ?L)(0 := None)\<rparr> =
           closed_handle [LUserdata 0]"
    by (simp add: one_handle_def closed_handle_def)
  from close_failure_keeps_handle[OF h1 h2 h3, of "failing_close (sample_lib linux)"] d f g e
  show ?thesis by auto
qed

text \<open>
  Claim C10: when the library does not know the pair of names, \<open>new\<close> creates no handle
  and returns \<open>nil\<close> and \<open>strerror(errno)\<close>, with no error code; the call of the
  module, with or without the module table as its first argument, returns the same.
\<close>

theorem open_unknown_encoding:
  assumes "luaL_checklstring p L 1 = Inr (tocode, L1)"
    and "luaL_checklstring p L1 2 = Inr (fromcode, L2)"
    and "iconv_open lib (c_str tocode) (c_str fromcode) = Inl errno"
  shows "Liconv_new lib p L = Inr (2, lua_pushstring (strerror p errno) (lua_pushnil L2)) \<and>
         returned (Liconv_new lib p L) = Inr [LNil, LString (strerror p errno)] \<and>
         udata L2 = udata L \<and> descs L2 = descs L \<and>
         Liconv_open lib p L = Liconv_new lib p L \<and>
         Liconv_open lib p (L\<lparr>stack := LTable t # stack L\<rparr>) = Liconv_new lib p L"
proof -
  have new: "Liconv_new lib p L = Inr (2, lua_pushstring (strerror p errno) (lua_pushnil L2))"
    using assms by (simp add: Liconv_new_def)
  have "\<not> is_table L 1"
    using assms(1)
    by (auto simp: luaL_checklstring_def is_table_def split: option.splits lua_value.splits)
  then have direct: "Liconv_open lib p L = Liconv_new lib p L"
    using new by (simp add: Liconv_open_def)
  have "is_table (L\<lparr>stack := LTable t # stack L\<rparr>) 1"
    by (simp add: is_table_def index2value_def)
  moreover have "lua_remove 1 (L\<lparr>stack := LTable t # stack L\<rparr>) = L"
    by (simp add: lua_remove_def)
  ultimately have "Liconv_open lib p (L\<lparr>stack := LTable t # stack L\<rparr>) = Liconv_new lib p L"
    using new by (simp add: Liconv_open_def)
  with new direct assms(1,2) show ?thesis
    by (simp add: checklstring_fields)
qed

theorem open_unknown_encoding_witness:
  "returned (Liconv_new (sample_lib linux) linux (start [LString ''UTF-8'', LString ''KLINGON''])) =
     Inr [LNil, LString ''Invalid argument''] \<and>
   returned (Liconv_open (sample_lib linux) linux
      (start [LTable 0, LString ''UTF-8'', LString ''KLINGON''])) =
     Inr [LNil, LString ''Invalid argument'']"
proof -
  let ?L = "start [LString ''UTF-8'', LString ''KLINGON''] :: bool descriptor lua_State"
  have h1: "luaL_checklstring linux ?L 1 = Inr (''UTF-8'', ?L)"
    by (simp add: start_def api_defs)
  have h2: "luaL_checklstring linux ?L 2 = Inr (''KLINGON'', ?L)"
    by (simp add: start_def api_defs)
  have h3: "iconv_open (sample_lib linux) (c_str ''UTF-8'') (c_str ''KLINGON'') = Inl 22"
    by (simp add: sample_defs c_str_def)
  have t: "?L\<lparr>stack := LTable 0 # stack ?L\<rparr> =
           start [LTable 0, LString ''UTF-8'', LString ''KLINGON'']"
    by (simp add: start_def)
  from open_unknown_encoding[OF h1 h2 h3, of 0] t show ?thesis
    by (simp add: linux_def)
qed

end

